theory Spec2Isabelle
  imports Main "HOL-Library.Word" "HOL-Library.Signed_Division" "HOL-Library.Multiset"
begin

section \<open>VFD SWMR coordination engine (H5Fvfd\_swmr.c): data model\<close>

text \<open>
  The model covers the functions of the file that decide the properties proved below:
  the delay predicate, the deferred-free queue, the enlargement of the shadow index, the
  update of the metadata file, close and flush, the EOT queue, and the reader's end of
  tick. \<open>H5F_vfd_swmr_init\<close>, \<open>H5F_vfd_swmr_writer_end_of_tick\<close> and the functions that
  wait for a tick or print a summary are sequences of calls to other modules and are not
  modelled.

  Machine integers are words of the width the C source declares: \<open>uint64_t\<close>,
  \<open>haddr_t\<close>, \<open>hsize_t\<close> and \<open>size_t\<close> are \<open>64 word\<close>, \<open>uint32_t\<close> is
  \<open>32 word\<close>, bytes are \<open>8 word\<close>. Arithmetic on them wraps as in C. An assertion
  (\<open>assert\<close>, \<open>HDassert\<close>) that fails stops the program with \<open>AssertFail\<close>.
\<close>

type_synonym u64 = "64 word"
type_synonym u32 = "32 word"
type_synonym u8 = "8 word"

text \<open>
  \<open>struct timespec\<close>. \<open>timespeccmp(a, b, <=)\<close> is the system macro: seconds decide,
  nanoseconds break a tie.
\<close>

record timespec =
  tv_sec :: int
  tv_nsec :: int

definition timespeccmp_le :: "timespec \<Rightarrow> timespec \<Rightarrow> bool" where
  "timespeccmp_le a b =
     (if tv_sec a = tv_sec b then tv_nsec a \<le> tv_nsec b else tv_sec a \<le> tv_sec b)"

text \<open>
  \<open>H5FD_vfd_swmr_idx_entry_t\<close>, with the fields this file reads or writes. The field
  \<open>length\<close> is \<open>length_ie\<close> here. \<open>entry_ptr\<close> is \<open>None\<close> for \<open>NULL\<close> and otherwise
  the bytes of the pending image it points to.
\<close>

record H5FD_vfd_swmr_idx_entry_t =
  hdf5_page_offset :: u64
  md_file_page_offset :: u64
  length_ie :: u32
  chksum :: u32
  entry_ptr :: "u8 list option"
  delayed_flush :: u64

text \<open>
  \<open>shadow_defree_t\<close>: a shadow-file byte range waiting for reclamation (fields
  \<open>offset\<close>, \<open>length\<close>, \<open>tick_num\<close> of the source).
\<close>

record shadow_defree_t =
  offset_sd :: u64
  length_sd :: u32
  tick_num_sd :: u64

text \<open>
  \<open>eot_queue_entry_t\<close>; \<open>vfd_swmr_file\<close> is the \<open>H5F_t *\<close>, modelled as the
  number that identifies the open file.
\<close>

record eot_queue_entry_t =
  vfd_swmr_writer_eot :: bool
  tick_num_eot :: u64
  end_of_tick_eot :: timespec
  vfd_swmr_file :: nat

text \<open>
  Calls that leave this source file. Each call to an external collaborator that changes
  something outside the writer's or reader's own state is recorded, in program order,
  in the \<open>trace\<close> field of the file's shared state.
\<close>

datatype event =
    MdWriteImage u64 "u8 list"
  | MdWriteIndex u64 "u8 list"
  | MdWriteHeader u64 "u8 list"
  | MdClose
  | MdUnlink
  | MvAlloc u64 u64
  | MvFree u64 u64
  | MvClose
  | PbSetTick u64
  | PbRemoveEntry u64
  | CacheEvictOrRefresh u64 u64

datatype error =
    AssertFail
  | NullDeref
  | OutOfBounds
  | DivByZero
  | H5E_CANTALLOC
  | H5E_NOSPACE
  | H5E_WRITEERROR
  | H5E_SEEKERROR
  | H5E_CANTSET
  | H5E_CANTGET
  | H5E_CANTFLUSH
  | H5E_SYSTEM
  | H5E_CANTCLOSEFILE
  | H5E_CANTREMOVE
  | H5E_CANTRELEASE

text \<open>
  \<open>H5F_shared_t\<close>, restricted to the fields this file uses. \<open>max_lag\<close>, \<open>tick_len\<close> and
  \<open>md_pages_reserved\<close> are the fields of \<open>vfd_swmr_config\<close>; \<open>pb_page_size\<close> is
  \<open>pb_ptr->page_size\<close>. An index array is \<open>None\<close> for \<open>NULL\<close>. The deferred-free queue
  \<open>shadow_defrees\<close> is a list whose first element is the head of the \<open>TAILQ\<close>.
\<close>

record H5F_shared_t =
  vfd_swmr :: bool
  vfd_swmr_writer :: bool
  tick_num :: u64
  end_of_tick :: timespec
  max_lag :: u32
  tick_len :: u32
  md_pages_reserved :: u32
  fs_page_size :: u64
  pb_page_size :: u64
  writer_index_offset :: u64
  vfd_swmr_md_fd :: int
  mdf_idx :: "H5FD_vfd_swmr_idx_entry_t list option"
  mdf_idx_len :: u32
  mdf_idx_entries_used :: u32
  old_mdf_idx :: "H5FD_vfd_swmr_idx_entry_t list option"
  old_mdf_idx_len :: u32
  old_mdf_idx_entries_used :: u32
  shadow_defrees :: "shadow_defree_t list"
  trace :: "event list"

section \<open>The delay predicate\<close>

text \<open>
  \<open>vfd_swmr_pageno_to_mdf_idx_entry\<close> is defined outside this source file, so the
  functions that call it take it as the parameter \<open>lookup\<close>: from the index array, the
  number of entries in use, the page and the flag to the entry found, \<open>None\<close> for
  \<open>NULL\<close>.
\<close>

type_synonym idx_lookup =
  "H5FD_vfd_swmr_idx_entry_t list \<Rightarrow> u32 \<Rightarrow> u64 \<Rightarrow> bool \<Rightarrow> H5FD_vfd_swmr_idx_entry_t option"

text \<open>The value of the local \<open>ie_ptr\<close> of \<open>H5F_vfd_swmr_writer__delay_write\<close>.\<close>

definition delay_write_ie_ptr ::
  "idx_lookup \<Rightarrow> H5F_shared_t \<Rightarrow> u64 \<Rightarrow> H5FD_vfd_swmr_idx_entry_t option" where
  "delay_write_ie_ptr lookup shared page =
     (case mdf_idx shared of
        None \<Rightarrow> None
      | Some idx \<Rightarrow> lookup idx (mdf_idx_entries_used shared) page False)"

text \<open>The value of the local \<open>until\<close> before it is range-checked.\<close>

definition delay_write_until :: "idx_lookup \<Rightarrow> H5F_shared_t \<Rightarrow> u64 \<Rightarrow> u64" where
  "delay_write_until lookup shared page =
     (case delay_write_ie_ptr lookup shared page of
        None \<Rightarrow> tick_num shared + ucast (max_lag shared)
      | Some ie \<Rightarrow>
          if delayed_flush ie \<ge> tick_num shared then delayed_flush ie else 0)"

text \<open>
  \<open>H5F_vfd_swmr_writer__delay_write\<close>. The result is \<open>Inr until\<close> when the function
  returns \<open>SUCCEED\<close> after storing \<open>until\<close> in \<open>*untilp\<close>, and \<open>Inl\<close> when an assertion
  stops it or it returns \<open>FAIL\<close>, in which case \<open>*untilp\<close> is not written.
\<close>

definition H5F_vfd_swmr_writer__delay_write ::
  "idx_lookup \<Rightarrow> H5F_shared_t \<Rightarrow> u64 \<Rightarrow> error + u64" where
  "H5F_vfd_swmr_writer__delay_write lookup shared page =
     (if \<not> vfd_swmr shared then Inl AssertFail
      else if \<not> vfd_swmr_writer shared then Inl AssertFail
      else if \<not> (mdf_idx shared \<noteq> None \<or> tick_num shared \<le> 1) then Inl AssertFail
      else
        let until = delay_write_until lookup shared page
        in if until \<noteq> 0 \<and>
              (until < tick_num shared \<or>
               tick_num shared + ucast (max_lag shared) < until)
           then Inl H5E_SYSTEM
           else Inr until)"

section \<open>External collaborators\<close>

text \<open>
  The free-space manager of the shadow file (\<open>H5MV_*\<close>), the POSIX calls on the shadow
  file, the memory allocator, the checksum, the page buffer, the metadata cache, the
  reader's file driver and the clock are outside this source file. The model takes them
  as the fields of \<open>env\<close>. Each answers from the calls recorded so far (the trace), so an
  answer may differ from one call to the next. \<open>H5MV_alloc\<close> answers \<open>None\<close> for
  \<open>HADDR_UNDEF\<close>; the boolean answers are \<open>True\<close> when the call succeeds. \<open>mem_alloc\<close>
  stands for \<open>H5FL_CALLOC\<close>, \<open>HDmalloc\<close>, \<open>HDcalloc\<close> and \<open>malloc\<close>; \<open>mem_junk i\<close> is
  what slot \<open>i\<close> of a block from \<open>HDmalloc\<close> holds before it is written.
  \<open>H5FD_vfd_swmr_get_tick\<close> is the call \<open>H5FD_vfd_swmr_get_tick_and_idx(lf, TRUE, &tick,
  NULL, NULL)\<close>; \<open>H5FD_vfd_swmr_get_idx\<close> is the call \<open>H5FD_vfd_swmr_get_tick_and_idx(lf,
  FALSE, NULL, &n, idx)\<close>, from the value of \<open>n\<close> and the array before the call to
  their values after it.
\<close>

record env =
  H5MV_alloc :: "event list \<Rightarrow> u64 \<Rightarrow> u64 option"
  H5MV_free :: "event list \<Rightarrow> u64 \<Rightarrow> u64 \<Rightarrow> bool"
  H5MV_close :: "event list \<Rightarrow> bool"
  HDlseek :: "event list \<Rightarrow> u64 \<Rightarrow> bool"
  HDwrite :: "event list \<Rightarrow> u64 \<Rightarrow> u8 list \<Rightarrow> bool"
  HDclose :: "event list \<Rightarrow> bool"
  HDunlink :: "event list \<Rightarrow> bool"
  mem_alloc :: "event list \<Rightarrow> bool"
  mem_junk :: "nat \<Rightarrow> H5FD_vfd_swmr_idx_entry_t"
  H5_checksum_metadata :: "u8 list \<Rightarrow> u32"
  H5PB_vfd_swmr__set_tick :: "event list \<Rightarrow> u64 \<Rightarrow> bool"
  H5PB_remove_entry :: "event list \<Rightarrow> u64 \<Rightarrow> bool"
  H5C_evict_or_refresh_all_entries_in_page :: "event list \<Rightarrow> u64 \<Rightarrow> u64 \<Rightarrow> bool"
  H5FD_vfd_swmr_get_tick :: "event list \<Rightarrow> u64 option"
  H5FD_vfd_swmr_get_idx ::
    "event list \<Rightarrow> u32 \<Rightarrow> H5FD_vfd_swmr_idx_entry_t list
       \<Rightarrow> (u32 \<times> H5FD_vfd_swmr_idx_entry_t list) option"
  HDclock_gettime :: "event list \<Rightarrow> timespec option"

text \<open>
  A function that returns \<open>herr_t\<close> is modelled with the result \<open>error option\<close>:
  \<open>None\<close> is \<open>SUCCEED\<close>, \<open>Some e\<close> is \<open>FAIL\<close> with the minor error code pushed first, or
  the assertion or invalid memory access that stopped the program. The state is
  returned beside it in either case, as the C function leaves it.
\<close>

definition log_event :: "event \<Rightarrow> H5F_shared_t \<Rightarrow> H5F_shared_t" where
  "log_event ev shared = shared\<lparr>trace := trace shared @ [ev]\<rparr>"

section \<open>On-disk encoding\<close>

text \<open>
  The size and offset macros, the two magic strings and the encoding macros used below
  are defined outside this source file; each is taken from the spec's description of
  the shadow-file layout.
\<close>

text \<open>
  Modelled from the spec: \<open>H5FD_MD_INDEX_ENTRY_SIZE\<close> is missing; an index entry is
  encoded as four u32 fields.
\<close>

definition H5FD_MD_INDEX_ENTRY_SIZE :: u64 where
  "H5FD_MD_INDEX_ENTRY_SIZE = 16"

text \<open>
  Modelled from the spec: \<open>H5FD_MD_INDEX_SIZE\<close> is missing; the encoded index byte length
  is magic + 8 + 4 + N * 16 + 4, with a magic of 4 bytes.
\<close>

definition H5FD_MD_INDEX_SIZE :: "u32 \<Rightarrow> u64" where
  "H5FD_MD_INDEX_SIZE n = 4 + 8 + 4 + ucast n * H5FD_MD_INDEX_ENTRY_SIZE + 4"

text \<open>
  Modelled from the spec: \<open>H5FD_MD_HEADER_SIZE\<close> is missing; the header is the magic
  (4 bytes), the page size (u32), the tick (u64), the index offset (u64), the index
  length (u64) and the checksum (u32).
\<close>

definition H5FD_MD_HEADER_SIZE :: u64 where
  "H5FD_MD_HEADER_SIZE = 4 + 4 + 8 + 8 + 8 + 4"

text \<open>
  Modelled from the spec: \<open>H5FD_MD_HEADER_OFF\<close> is missing; the header is written at
  shadow offset 0.
\<close>

definition H5FD_MD_HEADER_OFF :: u64 where
  "H5FD_MD_HEADER_OFF = 0"

text \<open>
  Modelled from the spec: \<open>H5FD_MD_HEADER_MAGIC\<close> is missing; the header starts with the
  four characters VHDR.
\<close>

definition H5FD_MD_HEADER_MAGIC :: "u8 list" where
  "H5FD_MD_HEADER_MAGIC = [0x56, 0x48, 0x44, 0x52]"

text \<open>
  Modelled from the spec: \<open>H5FD_MD_INDEX_MAGIC\<close> is missing; the index starts with the
  four characters VIDX.
\<close>

definition H5FD_MD_INDEX_MAGIC :: "u8 list" where
  "H5FD_MD_INDEX_MAGIC = [0x56, 0x49, 0x44, 0x58]"

text \<open>
  Modelled from the spec: \<open>UINT32ENCODE\<close> is missing; all multi-byte integers are
  little-endian.
\<close>

definition UINT32ENCODE :: "u32 \<Rightarrow> u8 list" where
  "UINT32ENCODE x = map (\<lambda>k. ucast (drop_bit (8 * k) x)) [0 ..< 4]"

text \<open>
  Modelled from the spec: \<open>UINT64ENCODE\<close> is missing; all multi-byte integers are
  little-endian.
\<close>

definition UINT64ENCODE :: "u64 \<Rightarrow> u8 list" where
  "UINT64ENCODE x = map (\<lambda>k. ucast (drop_bit (8 * k) x)) [0 ..< 8]"

text \<open>The four \<open>UINT32ENCODE\<close> lines of the index loop, for one entry.\<close>

definition encode_idx_entry :: "H5FD_vfd_swmr_idx_entry_t \<Rightarrow> u8 list" where
  "encode_idx_entry e =
     UINT32ENCODE (ucast (hdf5_page_offset e)) @
     UINT32ENCODE (ucast (md_file_page_offset e)) @
     UINT32ENCODE (length_ie e) @
     UINT32ENCODE (chksum e)"

text \<open>The index image up to, and then with, its checksum.\<close>

definition md_idx_image ::
  "env \<Rightarrow> u64 \<Rightarrow> u32 \<Rightarrow> H5FD_vfd_swmr_idx_entry_t list \<Rightarrow> u8 list" where
  "md_idx_image env tick num_entries entries =
     (let body = H5FD_MD_INDEX_MAGIC @ UINT64ENCODE tick @ UINT32ENCODE num_entries @
                 concat (map encode_idx_entry entries)
      in body @ UINT32ENCODE (H5_checksum_metadata env body))"

definition md_hdr_image :: "env \<Rightarrow> H5F_shared_t \<Rightarrow> u32 \<Rightarrow> u8 list" where
  "md_hdr_image env shared num_entries =
     (let body = H5FD_MD_HEADER_MAGIC @ UINT32ENCODE (ucast (fs_page_size shared)) @
                 UINT64ENCODE (tick_num shared) @
                 UINT64ENCODE (writer_index_offset shared) @
                 UINT64ENCODE (H5FD_MD_INDEX_SIZE num_entries)
      in body @ UINT32ENCODE (H5_checksum_metadata env body))"

text \<open>
  \<open>H5F__vfd_swmr_construct_write_md_hdr\<close>: encode the header and write it at
  \<open>H5FD_MD_HEADER_OFF\<close>.
\<close>

definition H5F__vfd_swmr_construct_write_md_hdr ::
  "env \<Rightarrow> H5F_shared_t \<Rightarrow> u32 \<Rightarrow> error option \<times> H5F_shared_t" where
  "H5F__vfd_swmr_construct_write_md_hdr env shared num_entries =
     (let img = md_hdr_image env shared num_entries
      in if of_nat (length img) \<noteq> H5FD_MD_HEADER_SIZE then (Some AssertFail, shared)
         else if \<not> HDlseek env (trace shared) H5FD_MD_HEADER_OFF
           then (Some H5E_SEEKERROR, shared)
         else if \<not> HDwrite env (trace shared) H5FD_MD_HEADER_OFF img
           then (Some H5E_WRITEERROR, shared)
         else (None, log_event (MdWriteHeader H5FD_MD_HEADER_OFF img) shared))"

text \<open>
  \<open>H5F__vfd_swmr_construct_write_md_idx\<close>: encode the first \<open>num_entries\<close> entries of
  \<open>index\<close> and write the image at \<open>writer_index_offset\<close>. \<open>index\<close> is \<open>None\<close> for \<open>NULL\<close>.
  Reading an entry beyond the end of the array is reported as \<open>OutOfBounds\<close>.
\<close>

definition H5F__vfd_swmr_construct_write_md_idx ::
  "env \<Rightarrow> H5F_shared_t \<Rightarrow> u32 \<Rightarrow> H5FD_vfd_swmr_idx_entry_t list option
     \<Rightarrow> error option \<times> H5F_shared_t" where
  "H5F__vfd_swmr_construct_write_md_idx env shared num_entries index =
     (if \<not> (num_entries = 0 \<or> index \<noteq> None) then (Some AssertFail, shared)
      else if \<not> mem_alloc env (trace shared) then (Some H5E_NOSPACE, shared)
      else
        let entries = (case index of None \<Rightarrow> [] | Some xs \<Rightarrow> xs)
        in if length entries < unat num_entries then (Some OutOfBounds, shared)
           else
             let img = md_idx_image env (tick_num shared) num_entries
                           (take (unat num_entries) entries)
             in if of_nat (length img) \<noteq> H5FD_MD_INDEX_SIZE num_entries
                  then (Some AssertFail, shared)
                else if \<not> (vfd_swmr_md_fd shared \<ge> 0) then (Some AssertFail, shared)
                else if \<not> HDlseek env (trace shared) (writer_index_offset shared)
                  then (Some H5E_SEEKERROR, shared)
                else if \<not> HDwrite env (trace shared) (writer_index_offset shared) img
                  then (Some H5E_WRITEERROR, shared)
                else (None, log_event (MdWriteIndex (writer_index_offset shared) img)
                              shared))"

section \<open>Deferred-free queue\<close>

text \<open>
  \<open>shadow_range_defer_free\<close>: \<open>TAILQ_INSERT_HEAD\<close> of a new record stamped with the
  current tick. The result is the C return value, \<open>0\<close> or \<open>-1\<close>.
\<close>

definition shadow_range_defer_free ::
  "env \<Rightarrow> H5F_shared_t \<Rightarrow> u64 \<Rightarrow> u32 \<Rightarrow> int \<times> H5F_shared_t" where
  "shadow_range_defer_free env shared offset len =
     (if \<not> mem_alloc env (trace shared) then (- 1, shared)
      else (0, shared\<lparr>shadow_defrees :=
                  \<lparr>offset_sd = offset, length_sd = len, tick_num_sd = tick_num shared\<rparr>
                  # shadow_defrees shared\<rparr>))"

definition shadow_image_defer_free ::
  "env \<Rightarrow> H5F_shared_t \<Rightarrow> H5FD_vfd_swmr_idx_entry_t \<Rightarrow> int \<times> H5F_shared_t" where
  "shadow_image_defer_free env shared entry =
     shadow_range_defer_free env shared
       (md_file_page_offset entry * fs_page_size shared) (length_ie entry)"

section \<open>Enlarging the shadow index\<close>

text \<open>
  \<open>vfd_swmr_enlarge_shadow_index\<close>. The result is \<open>Inr\<close> of the new array when the
  function returns it and \<open>Inl\<close> when it returns \<open>NULL\<close> or stops. \<open>memcpy\<close> of
  \<open>old_mdf_idx_len\<close> entries from a \<open>NULL\<close> or shorter array is reported as \<open>NullDeref\<close> or
  \<open>OutOfBounds\<close>; copying no entries reads nothing.
\<close>

definition vfd_swmr_enlarge_shadow_index ::
  "env \<Rightarrow> H5F_shared_t
     \<Rightarrow> (error + H5FD_vfd_swmr_idx_entry_t list) \<times> H5F_shared_t" where
  "vfd_swmr_enlarge_shadow_index env shared =
     (let old_mdf_idx = mdf_idx shared;
          old_mdf_idx_len = mdf_idx_len shared;
          new_mdf_idx_len =
            (if 0xFFFFFFFF - old_mdf_idx_len \<ge> old_mdf_idx_len
             then old_mdf_idx_len * 2 else 0xFFFFFFFF);
          idx_size = H5FD_MD_INDEX_SIZE new_mdf_idx_len
      in case H5MV_alloc env (trace shared) idx_size of
           None \<Rightarrow> (Inl H5E_NOSPACE, shared)
         | Some idx_addr \<Rightarrow>
             let sh1 = log_event (MvAlloc idx_size idx_addr) shared
             in if \<not> mem_alloc env (trace sh1)
                then (Inl H5E_NOSPACE,
                      if H5MV_free env (trace sh1) idx_addr idx_size
                      then log_event (MvFree idx_addr idx_size) sh1 else sh1)
                else if old_mdf_idx_len \<noteq> 0 \<and> old_mdf_idx = None
                  then (Inl NullDeref, sh1)
                else
                  let old_entries = (case old_mdf_idx of None \<Rightarrow> [] | Some xs \<Rightarrow> xs)
                  in if length old_entries < unat old_mdf_idx_len
                     then (Inl OutOfBounds, sh1)
                     else
                       let new_mdf_idx =
                             take (unat old_mdf_idx_len) old_entries @
                             map (mem_junk env)
                               [unat old_mdf_idx_len ..< unat new_mdf_idx_len];
                           sh2 = sh1\<lparr>writer_index_offset := idx_addr,
                                     mdf_idx := Some new_mdf_idx,
                                     mdf_idx_len := new_mdf_idx_len\<rparr>
                       in case shadow_range_defer_free env sh2 (writer_index_offset sh2)
                                 (ucast (H5FD_MD_INDEX_SIZE old_mdf_idx_len)) of
                            (r, sh3) \<Rightarrow>
                              if r = - 1 then (Inl H5E_NOSPACE, sh3)
                              else (Inr new_mdf_idx, sh3))"

section \<open>Updating the metadata file\<close>

text \<open>
  \<open>H5F__idx_entry_cmp\<close>, the comparison handed to \<open>HDqsort\<close>.
\<close>

definition H5F__idx_entry_cmp ::
  "H5FD_vfd_swmr_idx_entry_t \<Rightarrow> H5FD_vfd_swmr_idx_entry_t \<Rightarrow> int" where
  "H5F__idx_entry_cmp entry1 entry2 =
     (if hdf5_page_offset entry1 < hdf5_page_offset entry2 then - 1
      else if hdf5_page_offset entry1 > hdf5_page_offset entry2 then 1
      else 0)"

text \<open>
  \<open>HDqsort\<close> with \<open>H5F__idx_entry_cmp\<close>: insertion of each entry before the first one
  that does not compare below it. \<open>qsort\<close> leaves the order of entries that compare
  equal open; the assertion that follows the sort stops the program when two entries
  compare equal.
\<close>

fun qsort_insert ::
  "H5FD_vfd_swmr_idx_entry_t \<Rightarrow> H5FD_vfd_swmr_idx_entry_t list
     \<Rightarrow> H5FD_vfd_swmr_idx_entry_t list" where
  "qsort_insert e [] = [e]"
| "qsort_insert e (x # xs) =
     (if H5F__idx_entry_cmp x e < 0 then x # qsort_insert e xs else e # x # xs)"

fun HDqsort :: "H5FD_vfd_swmr_idx_entry_t list \<Rightarrow> H5FD_vfd_swmr_idx_entry_t list" where
  "HDqsort [] = []"
| "HDqsort (e # es) = qsort_insert e (HDqsort es)"

text \<open>
  The loop of assertions after the sort: \<open>index[i - 1].hdf5_page_offset <
  index[i].hdf5_page_offset\<close> for every \<open>i\<close> from 1.
\<close>

fun no_duplicate_offsets :: "H5FD_vfd_swmr_idx_entry_t list \<Rightarrow> bool" where
  "no_duplicate_offsets [] = True"
| "no_duplicate_offsets [x] = True"
| "no_duplicate_offsets (x # y # ys) =
     (hdf5_page_offset x < hdf5_page_offset y \<and> no_duplicate_offsets (y # ys))"

text \<open>
  One iteration of the loop over the entries, for the entry at \<open>i\<close>: an entry with a
  pending image has its previous image queued for deferred free, gets a new shadow
  range, its checksum, and is written. The array is updated in place, so it is returned
  with the state also when the iteration fails. Reading \<open>length\<close> bytes from a shorter
  image is reported as \<open>OutOfBounds\<close>, a page size of zero as \<open>DivByZero\<close>.
\<close>

definition update_entry ::
  "env \<Rightarrow> nat \<Rightarrow> H5F_shared_t \<Rightarrow> H5FD_vfd_swmr_idx_entry_t list
     \<Rightarrow> error option \<times> H5F_shared_t \<times> H5FD_vfd_swmr_idx_entry_t list" where
  "update_entry env i shared index =
     (case entry_ptr (index ! i) of
        None \<Rightarrow> (None, shared, index)
      | Some img \<Rightarrow>
          (case (if md_file_page_offset (index ! i) \<noteq> 0
                 then shadow_image_defer_free env shared (index ! i)
                 else (0, shared)) of
             (r, sh1) \<Rightarrow>
               if r = - 1 then (Some H5E_CANTALLOC, sh1, index)
               else
                 (case H5MV_alloc env (trace sh1) (ucast (length_ie (index ! i))) of
                    None \<Rightarrow> (Some H5E_WRITEERROR, sh1, index)
                  | Some md_addr \<Rightarrow>
                      let sh2 = log_event
                                  (MvAlloc (ucast (length_ie (index ! i))) md_addr) sh1
                      in if fs_page_size sh2 = 0 then (Some DivByZero, sh2, index)
                         else if md_addr mod fs_page_size sh2 \<noteq> 0
                           then (Some AssertFail, sh2, index)
                         else if length img < unat (length_ie (index ! i))
                           then (Some OutOfBounds, sh2,
                                 index[i := (index ! i)\<lparr>md_file_page_offset :=
                                   md_addr div fs_page_size sh2\<rparr>])
                         else
                           let bytes = take (unat (length_ie (index ! i))) img;
                               index1 = index[i := (index ! i)
                                 \<lparr>md_file_page_offset := md_addr div fs_page_size sh2,
                                  chksum := H5_checksum_metadata env bytes\<rparr>]
                           in if \<not> HDlseek env (trace sh2) md_addr
                                then (Some H5E_SEEKERROR, sh2, index1)
                              else if \<not> HDwrite env (trace sh2) md_addr bytes
                                then (Some H5E_WRITEERROR, sh2, index1)
                              else (None, log_event (MdWriteImage md_addr bytes) sh2,
                                    index1[i := (index1 ! i)\<lparr>entry_ptr := None\<rparr>]))))"

text \<open>The loop \<open>for (i = 0; i < num_entries; i++)\<close>, over the values of \<open>i\<close> left.\<close>

fun update_entries ::
  "env \<Rightarrow> nat list \<Rightarrow> H5F_shared_t \<Rightarrow> H5FD_vfd_swmr_idx_entry_t list
     \<Rightarrow> error option \<times> H5F_shared_t \<times> H5FD_vfd_swmr_idx_entry_t list" where
  "update_entries env [] shared index = (None, shared, index)"
| "update_entries env (i # is) shared index =
     (case update_entry env i shared index of
        (Some e, sh1, index1) \<Rightarrow> (Some e, sh1, index1)
      | (None, sh1, index1) \<Rightarrow> update_entries env is sh1 index1)"

text \<open>
  \<open>TAILQ_FOREACH_REVERSE_SAFE\<close> over the deferred-free queue. The list argument is the
  part of the queue not yet visited, tail first; the result holds what is left of it.
  The walk breaks at the first record whose tick plus \<open>max_lag\<close> is above the current
  tick; every record before that is handed to \<open>H5MV_free\<close> and removed.
\<close>

fun release_shadow_defrees ::
  "env \<Rightarrow> H5F_shared_t \<Rightarrow> shadow_defree_t list
     \<Rightarrow> error option \<times> H5F_shared_t \<times> shadow_defree_t list" where
  "release_shadow_defrees env shared [] = (None, shared, [])"
| "release_shadow_defrees env shared (shadow_defree # prev) =
     (if tick_num_sd shadow_defree + ucast (max_lag shared) > tick_num shared
        then (None, shared, shadow_defree # prev)
      else if \<not> H5MV_free env (trace shared) (offset_sd shadow_defree)
                   (ucast (length_sd shadow_defree))
        then (Some H5E_CANTFLUSH, shared, shadow_defree # prev)
      else release_shadow_defrees env
             (log_event (MvFree (offset_sd shadow_defree)
                           (ucast (length_sd shadow_defree))) shared)
             prev)"

text \<open>
  The sort and the assertions at the start of \<open>H5F_update_vfd_swmr_metadata_file\<close>.
  Only the first \<open>num_entries\<close> entries are sorted. A \<open>NULL\<close> or shorter array with
  \<open>num_entries > 0\<close> is reported as \<open>NullDeref\<close> or \<open>OutOfBounds\<close>.
\<close>

definition sort_index ::
  "u32 \<Rightarrow> H5FD_vfd_swmr_idx_entry_t list option
     \<Rightarrow> error + H5FD_vfd_swmr_idx_entry_t list option" where
  "sort_index num_entries index =
     (if num_entries > 0 then
        (case index of
           None \<Rightarrow> Inl NullDeref
         | Some xs \<Rightarrow>
             if length xs < unat num_entries then Inl OutOfBounds
             else
               let sorted_part = HDqsort (take (unat num_entries) xs)
               in if \<not> no_duplicate_offsets sorted_part then Inl AssertFail
                  else Inr (Some (sorted_part @ drop (unat num_entries) xs)))
      else Inr index)"

text \<open>
  The stages of \<open>H5F_update_vfd_swmr_metadata_file\<close> after the sort. First the loop
  over the entries; with \<open>num_entries = 0\<close> and a \<open>NULL\<close> array it has nothing to do.
\<close>

definition write_entry_images ::
  "env \<Rightarrow> H5F_shared_t \<Rightarrow> u32 \<Rightarrow> H5FD_vfd_swmr_idx_entry_t list option
     \<Rightarrow> error option \<times> H5F_shared_t \<times> H5FD_vfd_swmr_idx_entry_t list option" where
  "write_entry_images env shared num_entries index =
     (case index of
        None \<Rightarrow> (None, shared, None)
      | Some xs \<Rightarrow>
          (case update_entries env [0 ..< unat num_entries] shared xs of
             (r, sh, xs1) \<Rightarrow> (r, sh, Some xs1)))"

text \<open>Then the index is constructed and written, and after it the header.\<close>

definition write_idx_and_hdr ::
  "env \<Rightarrow> H5F_shared_t \<Rightarrow> u32 \<Rightarrow> H5FD_vfd_swmr_idx_entry_t list option
     \<Rightarrow> error option \<times> H5F_shared_t" where
  "write_idx_and_hdr env shared num_entries index =
     (case H5F__vfd_swmr_construct_write_md_idx env shared num_entries index of
        (Some e, sh1) \<Rightarrow> (Some e, sh1)
      | (None, sh1) \<Rightarrow> H5F__vfd_swmr_construct_write_md_hdr env sh1 num_entries)"

text \<open>
  Last the deferred-free queue is scanned from its tail, unless the tick is at most
  \<open>max_lag\<close>, when it is too early for any reclamation.
\<close>

definition reclaim_shadow_defrees ::
  "env \<Rightarrow> H5F_shared_t \<Rightarrow> error option \<times> H5F_shared_t" where
  "reclaim_shadow_defrees env shared =
     (if tick_num shared \<le> ucast (max_lag shared) then (None, shared)
      else
        (case release_shadow_defrees env shared (rev (shadow_defrees shared)) of
           (r, sh1, left) \<Rightarrow> (r, sh1\<lparr>shadow_defrees := rev left\<rparr>)))"

text \<open>
  \<open>H5F_update_vfd_swmr_metadata_file\<close>. The array \<open>index\<close> is changed in place, so the
  result holds it beside the state.
\<close>

definition H5F_update_vfd_swmr_metadata_file ::
  "env \<Rightarrow> H5F_shared_t \<Rightarrow> u32 \<Rightarrow> H5FD_vfd_swmr_idx_entry_t list option
     \<Rightarrow> error option \<times> H5F_shared_t \<times> H5FD_vfd_swmr_idx_entry_t list option" where
  "H5F_update_vfd_swmr_metadata_file env shared num_entries index =
     (case sort_index num_entries index of
        Inl e \<Rightarrow> (Some e, shared, index)
      | Inr index0 \<Rightarrow>
          (case write_entry_images env shared num_entries index0 of
             (Some e, sh1, index1) \<Rightarrow> (Some e, sh1, index1)
           | (None, sh1, index1) \<Rightarrow>
               (case write_idx_and_hdr env sh1 num_entries index1 of
                  (Some e, sh2) \<Rightarrow> (Some e, sh2, index1)
                | (None, sh2) \<Rightarrow>
                    (case reclaim_shadow_defrees env sh2 of
                       (r, sh3) \<Rightarrow> (r, sh3, index1)))))"

section \<open>The EOT queue and the tick\<close>

text \<open>
  The globals \<open>eot_queue_g\<close> (first element the head of the \<open>TAILQ\<close>),
  \<open>vfd_swmr_writer_g\<close> and \<open>end_of_tick_g\<close>.
\<close>

record globals =
  eot_queue_g :: "eot_queue_entry_t list"
  vfd_swmr_writer_g :: bool
  end_of_tick_g :: timespec

text \<open>The update of the two snapshot globals that ends both queue operations.\<close>

definition set_up_globals :: "globals \<Rightarrow> globals" where
  "set_up_globals g =
     (case eot_queue_g g of
        first # _ \<Rightarrow> g\<lparr>vfd_swmr_writer_g := vfd_swmr_writer_eot first,
                        end_of_tick_g := end_of_tick_eot first\<rparr>
      | [] \<Rightarrow> g\<lparr>vfd_swmr_writer_g := False\<rparr>)"

text \<open>
  \<open>H5F_vfd_swmr_remove_entry_eot\<close>: the first entry of the queue that belongs to \<open>f\<close>
  is removed. The function cannot fail.
\<close>

fun remove_entry :: "nat \<Rightarrow> eot_queue_entry_t list \<Rightarrow> eot_queue_entry_t list" where
  "remove_entry f [] = []"
| "remove_entry f (cur # rest) =
     (if vfd_swmr_file cur = f then rest else cur # remove_entry f rest)"

definition H5F_vfd_swmr_remove_entry_eot :: "nat \<Rightarrow> globals \<Rightarrow> globals" where
  "H5F_vfd_swmr_remove_entry_eot f g =
     set_up_globals (g\<lparr>eot_queue_g := remove_entry f (eot_queue_g g)\<rparr>)"

text \<open>
  The search and insertion of \<open>H5F_vfd_swmr_insert_entry_eot\<close>. The list argument is
  the queue from its tail (\<open>TAILQ_FOREACH_REVERSE\<close>), and so is the result: the new entry
  (\<open>entry_ptr\<close> in the source) goes behind the first \<open>prec_ptr\<close> met whose \<open>end_of_tick\<close> is at most the entry's
  (\<open>TAILQ_INSERT_AFTER\<close>), and to the head when the walk ends with \<open>prec_ptr = NULL\<close>
  (\<open>TAILQ_INSERT_HEAD\<close>).
\<close>

fun insert_from_tail ::
  "eot_queue_entry_t \<Rightarrow> eot_queue_entry_t list \<Rightarrow> eot_queue_entry_t list" where
  "insert_from_tail new_entry [] = [new_entry]"
| "insert_from_tail new_entry (prec_ptr # before) =
     (if timespeccmp_le (end_of_tick_eot prec_ptr) (end_of_tick_eot new_entry)
      then new_entry # prec_ptr # before
      else prec_ptr # insert_from_tail new_entry before)"

text \<open>
  \<open>H5F_vfd_swmr_insert_entry_eot\<close>, for the file \<open>f\<close> whose shared state is \<open>shared\<close>.
\<close>

definition H5F_vfd_swmr_insert_entry_eot ::
  "env \<Rightarrow> nat \<Rightarrow> H5F_shared_t \<Rightarrow> globals \<Rightarrow> error option \<times> globals" where
  "H5F_vfd_swmr_insert_entry_eot env f shared g =
     (if \<not> mem_alloc env (trace shared) then (Some H5E_CANTALLOC, g)
      else
        let new_entry = \<lparr>vfd_swmr_writer_eot = vfd_swmr_writer shared,
                         tick_num_eot = tick_num shared,
                         end_of_tick_eot = end_of_tick shared,
                         vfd_swmr_file = f\<rparr>
        in (None,
            set_up_globals
              (g\<lparr>eot_queue_g := rev (insert_from_tail new_entry (rev (eot_queue_g g)))\<rparr>)))"

text \<open>
  \<open>H5F__vfd_swmr_update_end_of_tick_and_tick_num\<close>. \<open>tick_len * nanosecs_per_tenth_sec\<close>
  is a product of \<open>unsigned\<close> 32-bit operands; the other values are \<open>int64_t\<close> and are
  modelled as integers, with C's truncating division.
\<close>

definition nanosecs_per_second :: int where
  "nanosecs_per_second = 1000000000"

definition nanosecs_per_tenth_sec :: u32 where
  "nanosecs_per_tenth_sec = 100000000"

definition H5F__vfd_swmr_update_end_of_tick_and_tick_num ::
  "env \<Rightarrow> H5F_shared_t \<Rightarrow> globals \<Rightarrow> bool
     \<Rightarrow> error option \<times> H5F_shared_t \<times> globals" where
  "H5F__vfd_swmr_update_end_of_tick_and_tick_num env shared g incr_tick_num =
     (case HDclock_gettime env (trace shared) of
        None \<Rightarrow> (Some H5E_CANTGET, shared, g)
      | Some now \<Rightarrow>
          let curr_nsecs = tv_sec now * nanosecs_per_second + tv_nsec now;
              tlen_nsecs = uint (tick_len shared * nanosecs_per_tenth_sec);
              sh1 = (if incr_tick_num then shared\<lparr>tick_num := tick_num shared + 1\<rparr>
                     else shared)
          in if incr_tick_num \<and> \<not> H5PB_vfd_swmr__set_tick env (trace sh1) (tick_num sh1)
             then (Some H5E_SYSTEM, sh1, g)
             else
               let sh2 = (if incr_tick_num then log_event (PbSetTick (tick_num sh1)) sh1
                          else sh1);
                   new_end_nsecs = curr_nsecs + tlen_nsecs;
                   new_end_of_tick =
                     \<lparr>tv_sec = new_end_nsecs sdiv nanosecs_per_second,
                      tv_nsec = new_end_nsecs smod nanosecs_per_second\<rparr>
               in (None, sh2\<lparr>end_of_tick := new_end_of_tick\<rparr>,
                   g\<lparr>end_of_tick_g := new_end_of_tick\<rparr>))"

section \<open>Close and flush\<close>

text \<open>The loop that empties the deferred-free queue at close, one record a turn.\<close>

fun free_delayed_list :: "shadow_defree_t list \<Rightarrow> shadow_defree_t list" where
  "free_delayed_list [] = []"
| "free_delayed_list (cur # rest) = free_delayed_list rest"

text \<open>
  \<open>H5F_vfd_swmr_close_or_flush\<close>. In the flush branch a failure to update the end of
  tick is reported with \<open>HDONE_ERROR\<close>.
\<close>

definition H5F_vfd_swmr_close_or_flush ::
  "env \<Rightarrow> H5F_shared_t \<Rightarrow> globals \<Rightarrow> bool
     \<Rightarrow> error option \<times> H5F_shared_t \<times> globals" where
  "H5F_vfd_swmr_close_or_flush env shared g closing =
     (if \<not> vfd_swmr_writer shared then (Some AssertFail, shared, g)
      else if \<not> (vfd_swmr_md_fd shared \<ge> 0) then (Some AssertFail, shared, g)
      else
        (case H5F__vfd_swmr_construct_write_md_idx env shared 0 None of
           (Some e, sh1) \<Rightarrow> (Some e, sh1, g)
         | (None, sh1) \<Rightarrow>
             (case H5F__vfd_swmr_construct_write_md_hdr env sh1 0 of
                (Some e, sh2) \<Rightarrow> (Some e, sh2, g)
              | (None, sh2) \<Rightarrow>
                  if closing then
                    let sh3 = sh2\<lparr>tick_num := tick_num sh2 + 1\<rparr>
                    in if \<not> HDclose env (trace sh3) then (Some H5E_CANTCLOSEFILE, sh3, g)
                       else
                         let sh4 = (log_event MdClose sh3)\<lparr>vfd_swmr_md_fd := - 1\<rparr>
                         in if \<not> HDunlink env (trace sh4)
                              then (Some H5E_CANTREMOVE, sh4, g)
                            else
                              let sh5 = log_event MdUnlink sh4
                              in if \<not> H5MV_close env (trace sh5)
                                   then (Some H5E_CANTRELEASE, sh5, g)
                                 else
                                   let sh6 = log_event MvClose sh5
                                   in if free_delayed_list (shadow_defrees sh6) \<noteq> []
                                        then (Some AssertFail, sh6, g)
                                      else (None, sh6\<lparr>shadow_defrees :=
                                              free_delayed_list (shadow_defrees sh6)\<rparr>, g)
                  else
                    (case H5F__vfd_swmr_update_end_of_tick_and_tick_num env sh2 g True of
                       (Some e, sh3, g1) \<Rightarrow> (Some e, sh3, g1)
                     | (None, sh3, g1) \<Rightarrow> (None, sh3, g1)))))"

section \<open>Reader end of tick\<close>

text \<open>
  \<open>H5F__vfd_swmr_writer__create_index\<close>. \<open>HDcalloc\<close> gives entries whose fields are all
  zero.
\<close>

definition calloc_entry :: H5FD_vfd_swmr_idx_entry_t where
  "calloc_entry =
     \<lparr>hdf5_page_offset = 0, md_file_page_offset = 0, length_ie = 0, chksum = 0,
      entry_ptr = None, delayed_flush = 0\<rparr>"

definition H5F__vfd_swmr_writer__create_index ::
  "env \<Rightarrow> H5F_shared_t \<Rightarrow> error option \<times> H5F_shared_t" where
  "H5F__vfd_swmr_writer__create_index env shared =
     (if \<not> vfd_swmr shared then (Some AssertFail, shared)
      else if \<not> mdf_idx shared = None then (Some AssertFail, shared)
      else if \<not> mdf_idx_len shared = 0 then (Some AssertFail, shared)
      else if \<not> mdf_idx_entries_used shared = 0 then (Some AssertFail, shared)
      else
        let bytes_available =
              fs_page_size shared * ucast (md_pages_reserved shared - 1)
        in if \<not> bytes_available > 0 then (Some AssertFail, shared)
           else
             let entries_in_index =
                   (bytes_available - H5FD_MD_INDEX_SIZE 0) div H5FD_MD_INDEX_ENTRY_SIZE
             in if \<not> entries_in_index > 0 then (Some AssertFail, shared)
                else if \<not> mem_alloc env (trace shared) then (Some H5E_NOSPACE, shared)
                else if \<not> entries_in_index \<le> 0xFFFFFFFF then (Some AssertFail, shared)
                else (None,
                      shared\<lparr>mdf_idx :=
                               Some (replicate (unat entries_in_index) calloc_entry),
                             mdf_idx_len := ucast entries_in_index,
                             mdf_idx_entries_used := 0\<rparr>))"

text \<open>
  The locals of the comparison of the old with the new index: the positions \<open>i\<close> and
  \<open>j\<close>, the three counters, and the slots of \<open>removed_page\<close> written so far. The
  positions and counters never pass the numbers of entries in use, which are 32-bit
  values, so they cannot wrap and are natural numbers here. Every write to
  \<open>removed_page\<close> goes to the slot \<open>entries_removed + entries_changed\<close> and then raises
  one of the two counters, so it fills the next free slot: the model appends, and
  reports a write past the \<open>cap\<close> slots of the block as \<open>OutOfBounds\<close>.
\<close>

record diff_state =
  pos_i :: nat
  pos_j :: nat
  entries_added :: nat
  entries_removed :: nat
  entries_changed :: nat
  removed_page :: "u64 list"

text \<open>The three branches of the body of the merge loop.\<close>

definition diff_step ::
  "H5FD_vfd_swmr_idx_entry_t list \<Rightarrow> H5FD_vfd_swmr_idx_entry_t list \<Rightarrow> nat
     \<Rightarrow> diff_state \<Rightarrow> error + diff_state" where
  "diff_step old_idx new_idx cap s =
     (if hdf5_page_offset (old_idx ! pos_i s) = hdf5_page_offset (new_idx ! pos_j s) then
        (if md_file_page_offset (old_idx ! pos_i s) \<noteq>
            md_file_page_offset (new_idx ! pos_j s)
         then
           (if cap \<le> entries_removed s + entries_changed s then Inl OutOfBounds
            else Inr (s\<lparr>removed_page :=
                            removed_page s @ [hdf5_page_offset (new_idx ! pos_j s)],
                          entries_changed := entries_changed s + 1,
                          pos_i := pos_i s + 1, pos_j := pos_j s + 1\<rparr>))
         else Inr (s\<lparr>pos_i := pos_i s + 1, pos_j := pos_j s + 1\<rparr>))
      else if hdf5_page_offset (old_idx ! pos_i s) < hdf5_page_offset (new_idx ! pos_j s)
        then
          (if cap \<le> entries_removed s + entries_changed s then Inl OutOfBounds
           else Inr (s\<lparr>removed_page :=
                           removed_page s @ [hdf5_page_offset (old_idx ! pos_i s)],
                         entries_removed := entries_removed s + 1,
                         pos_i := pos_i s + 1\<rparr>))
      else Inr (s\<lparr>entries_added := entries_added s + 1, pos_j := pos_j s + 1\<rparr>))"

text \<open>The two sanity checks at the end of the body of the merge loop.\<close>

definition diff_sanity ::
  "H5FD_vfd_swmr_idx_entry_t list \<Rightarrow> nat \<Rightarrow> H5FD_vfd_swmr_idx_entry_t list \<Rightarrow> nat
     \<Rightarrow> diff_state \<Rightarrow> bool" where
  "diff_sanity old_idx old_used new_idx new_used s =
     ((pos_i s = 0 \<or> pos_i s \<ge> old_used \<or>
       hdf5_page_offset (old_idx ! (pos_i s - 1)) < hdf5_page_offset (old_idx ! pos_i s)) \<and>
      (pos_j s = 0 \<or> pos_j s \<ge> new_used \<or>
       hdf5_page_offset (new_idx ! (pos_j s - 1)) < hdf5_page_offset (new_idx ! pos_j s)))"

function diff_merge ::
  "H5FD_vfd_swmr_idx_entry_t list \<Rightarrow> nat \<Rightarrow> H5FD_vfd_swmr_idx_entry_t list \<Rightarrow> nat
     \<Rightarrow> nat \<Rightarrow> diff_state \<Rightarrow> error + diff_state" where
  "diff_merge old_idx old_used new_idx new_used cap s =
     (if pos_i s < old_used \<and> pos_j s < new_used then
        (case diff_step old_idx new_idx cap s of
           Inl e \<Rightarrow> Inl e
         | Inr s1 \<Rightarrow>
             if \<not> diff_sanity old_idx old_used new_idx new_used s1 then Inl AssertFail
             else diff_merge old_idx old_used new_idx new_used cap s1)
      else Inr s)"
  by pat_completeness auto
termination
  by (relation "measure (\<lambda>(old_idx, old_used, new_idx, new_used, cap, s).
                   (old_used - pos_i s) + (new_used - pos_j s))")
     (auto simp: diff_step_def split: if_splits)

text \<open>The loop that cleans up the left overs in the old index.\<close>

function diff_left_overs ::
  "H5FD_vfd_swmr_idx_entry_t list \<Rightarrow> nat \<Rightarrow> nat \<Rightarrow> diff_state \<Rightarrow> error + diff_state" where
  "diff_left_overs old_idx old_used cap s =
     (if pos_i s < old_used then
        (if cap \<le> entries_removed s + entries_changed s then Inl OutOfBounds
         else diff_left_overs old_idx old_used cap
                (s\<lparr>removed_page :=
                      removed_page s @ [hdf5_page_offset (old_idx ! pos_i s)],
                    entries_removed := entries_removed s + 1,
                    pos_i := pos_i s + 1\<rparr>))
      else Inr s)"
  by pat_completeness auto
termination
  by (relation "measure (\<lambda>(old_idx, old_used, cap, s). old_used - pos_i s)") auto

declare diff_merge.simps [simp del]

declare diff_left_overs.simps [simp del]

text \<open>
  The comparison as a whole, from the two arrays and their numbers of entries in use:
  the block of \<open>MAX(old, new)\<close> slots, the merge loop, the count of the entries left in
  the new index, and the left overs of the old one. An array that is \<open>NULL\<close> or shorter
  than its number of entries in use is reported before the merge as \<open>NullDeref\<close> or
  \<open>OutOfBounds\<close>.
\<close>

definition reader_diff ::
  "H5FD_vfd_swmr_idx_entry_t list option \<Rightarrow> u32
     \<Rightarrow> H5FD_vfd_swmr_idx_entry_t list option \<Rightarrow> u32 \<Rightarrow> error + diff_state" where
  "reader_diff old_mdf old_used new_mdf new_used =
     (if (old_used \<noteq> 0 \<and> old_mdf = None) \<or> (new_used \<noteq> 0 \<and> new_mdf = None)
        then Inl NullDeref
      else
        let old_idx = (case old_mdf of None \<Rightarrow> [] | Some xs \<Rightarrow> xs);
            new_idx = (case new_mdf of None \<Rightarrow> [] | Some xs \<Rightarrow> xs);
            cap = max (unat old_used) (unat new_used)
        in if length old_idx < unat old_used \<or> length new_idx < unat new_used
             then Inl OutOfBounds
           else
             (case diff_merge old_idx (unat old_used) new_idx (unat new_used) cap
                     \<lparr>pos_i = 0, pos_j = 0, entries_added = 0, entries_removed = 0,
                      entries_changed = 0, removed_page = []\<rparr> of
                Inl e \<Rightarrow> Inl e
              | Inr s1 \<Rightarrow>
                  diff_left_overs old_idx (unat old_used) cap
                    (s1\<lparr>entries_added :=
                          entries_added s1 + (unat new_used - pos_j s1)\<rparr>)))"

text \<open>The two passes over \<open>removed_page\<close>: the page buffer, then the metadata cache.\<close>

fun evict_from_page_buffer ::
  "env \<Rightarrow> H5F_shared_t \<Rightarrow> u64 list \<Rightarrow> error option \<times> H5F_shared_t" where
  "evict_from_page_buffer env shared [] = (None, shared)"
| "evict_from_page_buffer env shared (page # pages) =
     (let page_addr = page * pb_page_size shared
      in if \<not> H5PB_remove_entry env (trace shared) page_addr
           then (Some H5E_CANTFLUSH, shared)
         else evict_from_page_buffer env (log_event (PbRemoveEntry page_addr) shared) pages)"

fun evict_from_cache ::
  "env \<Rightarrow> H5F_shared_t \<Rightarrow> u64 \<Rightarrow> u64 list \<Rightarrow> error option \<times> H5F_shared_t" where
  "evict_from_cache env shared tmp_tick_num [] = (None, shared)"
| "evict_from_cache env shared tmp_tick_num (page # pages) =
     (if \<not> H5C_evict_or_refresh_all_entries_in_page env (trace shared) page tmp_tick_num
        then (Some H5E_CANTFLUSH, shared)
      else evict_from_cache env
             (log_event (CacheEvictOrRefresh page tmp_tick_num) shared) tmp_tick_num pages)"

text \<open>
  The body of \<open>if (tmp_tick_num != f->shared->tick_num)\<close>, in three stages. First the
  two index arrays are swapped, an index is allocated if there is none, and the new index
  is loaded into it.
\<close>

definition swap_indexes :: "H5F_shared_t \<Rightarrow> H5F_shared_t" where
  "swap_indexes shared =
     shared\<lparr>old_mdf_idx := mdf_idx shared,
            old_mdf_idx_len := mdf_idx_len shared,
            old_mdf_idx_entries_used := mdf_idx_entries_used shared,
            mdf_idx := old_mdf_idx shared,
            mdf_idx_len := old_mdf_idx_len shared,
            mdf_idx_entries_used := old_mdf_idx_entries_used shared\<rparr>"

definition load_new_index :: "env \<Rightarrow> H5F_shared_t \<Rightarrow> error option \<times> H5F_shared_t" where
  "load_new_index env shared =
     (let sh1 = swap_indexes shared
      in case (if mdf_idx sh1 = None then H5F__vfd_swmr_writer__create_index env sh1
               else (None, sh1)) of
           (Some e, sh2) \<Rightarrow> (Some e, sh2)
         | (None, sh2) \<Rightarrow>
             (case mdf_idx sh2 of
                None \<Rightarrow> (Some NullDeref, sh2)
              | Some arr \<Rightarrow>
                  (case H5FD_vfd_swmr_get_idx env (trace sh2) (mdf_idx_len sh2) arr of
                     None \<Rightarrow> (Some H5E_CANTGET, sh2)
                   | Some (used, arr1) \<Rightarrow>
                       if \<not> used \<le> mdf_idx_len sh2
                         then (Some AssertFail, sh2\<lparr>mdf_idx := Some arr1\<rparr>)
                       else (None, sh2\<lparr>mdf_idx := Some arr1,
                                        mdf_idx_entries_used := used\<rparr>))))"

text \<open>
  Then the block for \<open>removed_page\<close> is allocated, the old index is compared with the
  new one, and the pages found are evicted in two passes.
\<close>

definition evict_stale_pages ::
  "env \<Rightarrow> H5F_shared_t \<Rightarrow> u64 \<Rightarrow> error option \<times> H5F_shared_t" where
  "evict_stale_pages env shared tmp_tick_num =
     (if \<not> mem_alloc env (trace shared) then (Some H5E_CANTALLOC, shared)
      else
        (case reader_diff (old_mdf_idx shared) (old_mdf_idx_entries_used shared)
                (mdf_idx shared) (mdf_idx_entries_used shared) of
           Inl e \<Rightarrow> (Some e, shared)
         | Inr d \<Rightarrow>
             let pages = take (entries_removed d + entries_changed d) (removed_page d)
             in (case evict_from_page_buffer env shared pages of
                   (Some e, sh1) \<Rightarrow> (Some e, sh1)
                 | (None, sh1) \<Rightarrow> evict_from_cache env sh1 tmp_tick_num pages)))"

text \<open>Last the new tick is adopted and the end of tick is updated.\<close>

definition reader_new_tick ::
  "env \<Rightarrow> H5F_shared_t \<Rightarrow> globals \<Rightarrow> u64 \<Rightarrow> error option \<times> H5F_shared_t \<times> globals" where
  "reader_new_tick env shared g tmp_tick_num =
     (case load_new_index env shared of
        (Some e, sh1) \<Rightarrow> (Some e, sh1, g)
      | (None, sh1) \<Rightarrow>
          (case evict_stale_pages env sh1 tmp_tick_num of
             (Some e, sh2) \<Rightarrow> (Some e, sh2, g)
           | (None, sh2) \<Rightarrow>
               H5F__vfd_swmr_update_end_of_tick_and_tick_num env
                 (sh2\<lparr>tick_num := tmp_tick_num\<rparr>) g False))"

text \<open>
  \<open>H5F_vfd_swmr_reader_end_of_tick\<close>. \<open>files\<close> maps each open \<open>H5F_t *\<close> to its shared
  state; the argument is \<open>None\<close> for \<open>f == NULL\<close>, when the file is taken from the head
  of the EOT queue. The page buffer and the file driver of the file (\<open>pb_ptr\<close>, \<open>lf\<close>)
  are taken to exist. An error inside the new-tick block jumps to \<open>done\<close> and leaves
  the queue alone.
\<close>

definition H5F_vfd_swmr_reader_end_of_tick ::
  "env \<Rightarrow> (nat \<Rightarrow> H5F_shared_t option) \<Rightarrow> globals \<Rightarrow> nat option
     \<Rightarrow> error option \<times> (nat \<Rightarrow> H5F_shared_t option) \<times> globals" where
  "H5F_vfd_swmr_reader_end_of_tick env files g f_arg =
     (case (case f_arg of
              Some f \<Rightarrow> Some f
            | None \<Rightarrow> (case eot_queue_g g of
                         [] \<Rightarrow> None
                       | first # _ \<Rightarrow> Some (vfd_swmr_file first))) of
        None \<Rightarrow> (Some NullDeref, files, g)
      | Some f \<Rightarrow>
          (case files f of
             None \<Rightarrow> (Some AssertFail, files, g)
           | Some shared \<Rightarrow>
               if \<not> vfd_swmr shared then (Some AssertFail, files, g)
               else if \<not> \<not> vfd_swmr_writer shared then (Some AssertFail, files, g)
               else
                 (case H5FD_vfd_swmr_get_tick env (trace shared) of
                    None \<Rightarrow> (Some H5E_CANTGET, files, g)
                  | Some tmp_tick_num \<Rightarrow>
                      (case (if tmp_tick_num \<noteq> tick_num shared
                             then reader_new_tick env shared g tmp_tick_num
                             else (None, shared, g)) of
                         (Some e, sh1, g1) \<Rightarrow> (Some e, files(f \<mapsto> sh1), g1)
                       | (None, sh1, g1) \<Rightarrow>
                           (case H5F_vfd_swmr_insert_entry_eot env f sh1
                                   (H5F_vfd_swmr_remove_entry_eot f g1) of
                              (r, g2) \<Rightarrow> (r, files(f \<mapsto> sh1), g2))))))"

section \<open>Notions used in the statements\<close>

text \<open>
  The kinds of recorded calls: a write to the shadow file, the write of a page image,
  the write of the header, and a range handed back to the free-space manager.
\<close>

fun is_md_write :: "event \<Rightarrow> bool" where
  "is_md_write (MdWriteImage addr bytes) = True"
| "is_md_write (MdWriteIndex addr bytes) = True"
| "is_md_write (MdWriteHeader addr bytes) = True"
| "is_md_write ev = False"

fun is_image_write :: "event \<Rightarrow> bool" where
  "is_image_write (MdWriteImage addr bytes) = True"
| "is_image_write ev = False"

fun is_header_write :: "event \<Rightarrow> bool" where
  "is_header_write (MdWriteHeader addr bytes) = True"
| "is_header_write ev = False"

fun is_mv_free :: "event \<Rightarrow> bool" where
  "is_mv_free (MvFree addr len) = True"
| "is_mv_free ev = False"

text \<open>The call that hands a deferred-free record back to the free-space manager.\<close>

definition free_of :: "shadow_defree_t \<Rightarrow> event" where
  "free_of d = MvFree (offset_sd d) (ucast (length_sd d))"

text \<open>The entries of an index array that may be \<open>NULL\<close>.\<close>

definition entries_of ::
  "H5FD_vfd_swmr_idx_entry_t list option \<Rightarrow> H5FD_vfd_swmr_idx_entry_t list" where
  "entries_of index = (case index of None \<Rightarrow> [] | Some xs \<Rightarrow> xs)"

text \<open>
  The calls the loop over the entries makes: an allocation, or the write of an image.
\<close>

fun is_loop_event :: "event \<Rightarrow> bool" where
  "is_loop_event (MvAlloc len addr) = True"
| "is_loop_event (MdWriteImage addr bytes) = True"
| "is_loop_event ev = False"

text \<open>
  The state apart from the deferred-free queue and the trace: two states with the same
  \<open>frame_of\<close> differ in these two fields at most.
\<close>

definition frame_of :: "H5F_shared_t \<Rightarrow> H5F_shared_t" where
  "frame_of shared = shared\<lparr>shadow_defrees := [], trace := []\<rparr>"

text \<open>
  The pages that differ between an old and a new index: a page is changed when both
  hold it at different places of the shadow file, and removed when only the old one
  holds it.
\<close>

definition changed_pages ::
  "H5FD_vfd_swmr_idx_entry_t list \<Rightarrow> H5FD_vfd_swmr_idx_entry_t list \<Rightarrow> u64 set" where
  "changed_pages old_idx new_idx =
     {p. \<exists>old\<in>set old_idx. \<exists>new\<in>set new_idx.
           hdf5_page_offset old = p \<and> hdf5_page_offset new = p \<and>
           md_file_page_offset old \<noteq> md_file_page_offset new}"

definition removed_pages ::
  "H5FD_vfd_swmr_idx_entry_t list \<Rightarrow> H5FD_vfd_swmr_idx_entry_t list \<Rightarrow> u64 set" where
  "removed_pages old_idx new_idx =
     {p. (\<exists>old\<in>set old_idx. hdf5_page_offset old = p) \<and>
         \<not> (\<exists>new\<in>set new_idx. hdf5_page_offset new = p)}"

text \<open>The entries in use of the current index.\<close>

definition used_entries :: "H5F_shared_t \<Rightarrow> H5FD_vfd_swmr_idx_entry_t list" where
  "used_entries shared =
     take (unat (mdf_idx_entries_used shared)) (entries_of (mdf_idx shared))"

text \<open>
  The pages of the old entries for which the new index has no entry with the same page
  and the same place in the shadow file. For a new index without duplicate pages these
  are the changed and the removed pages.
\<close>

definition unmatched_pages ::
  "H5FD_vfd_swmr_idx_entry_t list \<Rightarrow> H5FD_vfd_swmr_idx_entry_t list \<Rightarrow> u64 set" where
  "unmatched_pages old_idx new_idx =
     hdf5_page_offset `
       {ol \<in> set old_idx.
          \<not> (\<exists>nw\<in>set new_idx. hdf5_page_offset nw = hdf5_page_offset ol \<and>
                 md_file_page_offset nw = md_file_page_offset ol)}"

text \<open>
  What the comparison keeps true of its locals: the positions stay within the entries
  in use, the two counters add up to the number of slots of \<open>removed_page\<close> written,
  and that number is at most the position in the old index.
\<close>

definition diff_inv :: "nat \<Rightarrow> nat \<Rightarrow> diff_state \<Rightarrow> bool" where
  "diff_inv old_used new_used s =
     (pos_i s \<le> old_used \<and> pos_j s \<le> new_used \<and>
      entries_removed s + entries_changed s = length (removed_page s) \<and>
      length (removed_page s) \<le> pos_i s)"

section \<open>Example states\<close>

text \<open>
  Concrete states and collaborators on which the theorems below are instantiated. In
  \<open>example_env\<close> every call succeeds, the free-space manager hands out a new page-aligned
  address at each call, and the checksum of a block is its length. \<open>example_lookup\<close>
  finds the first of the entries in use that has the page's offset.
\<close>

definition example_entry :: "u64 \<Rightarrow> u64 \<Rightarrow> u64 \<Rightarrow> H5FD_vfd_swmr_idx_entry_t" where
  "example_entry page md_page until =
     \<lparr>hdf5_page_offset = page, md_file_page_offset = md_page, length_ie = 4, chksum = 0,
      entry_ptr = None, delayed_flush = until\<rparr>"

fun example_lookup_list ::
  "H5FD_vfd_swmr_idx_entry_t list \<Rightarrow> u64 \<Rightarrow> H5FD_vfd_swmr_idx_entry_t option" where
  "example_lookup_list [] page = None"
| "example_lookup_list (e # es) page =
     (if hdf5_page_offset e = page then Some e else example_lookup_list es page)"

definition example_lookup :: idx_lookup where
  "example_lookup idx nentries page reuse_garbage =
     example_lookup_list (take (unat nentries) idx) page"

definition example_writer :: H5F_shared_t where
  "example_writer =
     \<lparr>vfd_swmr = True, vfd_swmr_writer = True, tick_num = 6,
      end_of_tick = \<lparr>tv_sec = 100, tv_nsec = 0\<rparr>,
      max_lag = 5, tick_len = 1, md_pages_reserved = 2, fs_page_size = 4096,
      pb_page_size = 4096, writer_index_offset = 4096, vfd_swmr_md_fd = 3,
      mdf_idx = Some [example_entry 3 2 8, example_entry 7 3 100, example_entry 9 4 2,
                      example_entry 0 0 0],
      mdf_idx_len = 4, mdf_idx_entries_used = 3,
      old_mdf_idx = None, old_mdf_idx_len = 0, old_mdf_idx_entries_used = 0,
      shadow_defrees = [], trace = []\<rparr>"

definition example_fresh_writer :: H5F_shared_t where
  "example_fresh_writer =
     example_writer\<lparr>tick_num := 1, mdf_idx := None, mdf_idx_len := 0, mdf_idx_entries_used := 0\<rparr>"

definition example_eot_entry :: "int \<Rightarrow> nat \<Rightarrow> eot_queue_entry_t" where
  "example_eot_entry sec f =
     \<lparr>vfd_swmr_writer_eot = False, tick_num_eot = 1,
      end_of_tick_eot = \<lparr>tv_sec = sec, tv_nsec = 0\<rparr>, vfd_swmr_file = f\<rparr>"

definition example_globals :: globals where
  "example_globals =
     \<lparr>eot_queue_g = [example_eot_entry 50 1, example_eot_entry 100 2, example_eot_entry 150 3],
      vfd_swmr_writer_g = False, end_of_tick_g = \<lparr>tv_sec = 50, tv_nsec = 0\<rparr>\<rparr>"

definition example_env :: env where
  "example_env =
     \<lparr>H5MV_alloc = (\<lambda>tr size. Some (of_nat (length tr + 8) * 4096)),
      H5MV_free = (\<lambda>tr addr size. True),
      H5MV_close = (\<lambda>tr. True),
      HDlseek = (\<lambda>tr addr. True),
      HDwrite = (\<lambda>tr addr bytes. True),
      HDclose = (\<lambda>tr. True),
      HDunlink = (\<lambda>tr. True),
      mem_alloc = (\<lambda>tr. True),
      mem_junk = (\<lambda>i. calloc_entry),
      H5_checksum_metadata = (\<lambda>bytes. of_nat (length bytes)),
      H5PB_vfd_swmr__set_tick = (\<lambda>tr tick. True),
      H5PB_remove_entry = (\<lambda>tr addr. True),
      H5C_evict_or_refresh_all_entries_in_page = (\<lambda>tr page tick. True),
      H5FD_vfd_swmr_get_tick = (\<lambda>tr. Some 3),
      H5FD_vfd_swmr_get_idx = (\<lambda>tr n idx. Some (n, idx)),
      HDclock_gettime = (\<lambda>tr. Some \<lparr>tv_sec = 200, tv_nsec = 0\<rparr>)\<rparr>"

definition example_due_writer :: H5F_shared_t where
  "example_due_writer =
     example_writer\<lparr>shadow_defrees :=
       [\<lparr>offset_sd = 16384, length_sd = 4096, tick_num_sd = 2\<rparr>,
        \<lparr>offset_sd = 12288, length_sd = 4096, tick_num_sd = 1\<rparr>]\<rparr>"

definition example_dirty_index :: "H5FD_vfd_swmr_idx_entry_t list" where
  "example_dirty_index =
     [(example_entry 9 4 0)\<lparr>entry_ptr := Some [1, 2, 3, 4]\<rparr>,
      (example_entry 3 0 0)\<lparr>entry_ptr := Some [5, 6, 7, 8]\<rparr>,
      example_entry 7 3 0,
      example_entry 0 0 0]"

text \<open>
  A reader at tick 3 whose index holds the pages 3, 5 and 8, and a driver that reports
  tick 4 with an index where page 3 has moved, page 5 is gone, page 8 is as before and
  page 9 is new.
\<close>

definition example_reader :: H5F_shared_t where
  "example_reader =
     \<lparr>vfd_swmr = True, vfd_swmr_writer = False, tick_num = 3,
      end_of_tick = \<lparr>tv_sec = 100, tv_nsec = 0\<rparr>,
      max_lag = 5, tick_len = 1, md_pages_reserved = 2, fs_page_size = 4096,
      pb_page_size = 4096, writer_index_offset = 0, vfd_swmr_md_fd = - 1,
      mdf_idx = Some [example_entry 3 2 0, example_entry 5 6 0, example_entry 8 7 0,
                      example_entry 0 0 0],
      mdf_idx_len = 4, mdf_idx_entries_used = 3,
      old_mdf_idx = Some [example_entry 0 0 0, example_entry 0 0 0, example_entry 0 0 0,
                          example_entry 0 0 0],
      old_mdf_idx_len = 4, old_mdf_idx_entries_used = 0,
      shadow_defrees = [], trace = []\<rparr>"

definition example_files :: "nat \<Rightarrow> H5F_shared_t option" where
  "example_files = (\<lambda>f. if f = 2 then Some example_reader else None)"

definition example_new_tick_env :: env where
  "example_new_tick_env =
     example_env\<lparr>H5FD_vfd_swmr_get_tick := (\<lambda>tr. Some 4),
                 H5FD_vfd_swmr_get_idx := (\<lambda>tr n idx.
                   Some (3, [example_entry 3 9 0, example_entry 8 7 0, example_entry 9 4 0,
                             example_entry 0 0 0]))\<rparr>"

lemmas example_defs =
  example_env_def example_writer_def example_due_writer_def example_dirty_index_def
  example_entry_def

lemmas update_defs =
  H5F_update_vfd_swmr_metadata_file_def sort_index_def write_entry_images_def
  write_idx_and_hdr_def reclaim_shadow_defrees_def update_entry_def
  shadow_image_defer_free_def shadow_range_defer_free_def
  H5F__vfd_swmr_construct_write_md_idx_def H5F__vfd_swmr_construct_write_md_hdr_def
  H5F__idx_entry_cmp_def H5FD_MD_INDEX_SIZE_def H5FD_MD_INDEX_ENTRY_SIZE_def
  H5FD_MD_HEADER_SIZE_def H5FD_MD_HEADER_OFF_def log_event_def Let_def

lemmas reader_defs =
  H5F_vfd_swmr_reader_end_of_tick_def reader_new_tick_def load_new_index_def
  swap_indexes_def evict_stale_pages_def reader_diff_def diff_merge.simps
  diff_left_overs.simps diff_step_def diff_sanity_def
  H5F__vfd_swmr_update_end_of_tick_and_tick_num_def nanosecs_per_second_def
  nanosecs_per_tenth_sec_def H5F_vfd_swmr_insert_entry_eot_def
  H5F_vfd_swmr_remove_entry_eot_def set_up_globals_def timespeccmp_le_def log_event_def
  Let_def

section \<open>Verification: the delay predicate\<close>

lemma unat_ucast_u32_u64: "unat (ucast (m :: u32) :: u64) = unat m"
proof -
  have "unat m < 2 ^ 32" using unsigned_less [of m] by simp
  then have "unat m < 2 ^ 64" by simp
  then show ?thesis by (simp add: unsigned_ucast_eq take_bit_nat_eq_self)
qed

lemma u64_add_u32_bounds:
  fixes t u :: u64 and m :: u32
  assumes "t \<le> u" "u \<le> t + ucast m"
  shows "unat u \<le> unat t + unat m"
proof -
  have "unat (t + ucast m) \<le> unat t + unat (ucast m :: u64)"
    by (simp add: unat_word_ariths)
  moreover have "unat (ucast m :: u64) = unat m"
    by (rule unat_ucast_u32_u64)
  ultimately show ?thesis using assms by (simp add: word_le_nat_alt)
qed

lemma u64_outside_fails:
  fixes t u :: u64 and m :: u32
  assumes "\<not> (unat t \<le> unat u \<and> unat u \<le> unat t + unat m)"
  shows "u < t \<or> t + ucast m < u"
proof (cases "u < t")
  case True then show ?thesis by simp
next
  case False
  then have tu: "unat t \<le> unat u" by (simp add: word_less_nat_alt)
  with assms have gt: "unat t + unat m < unat u" by simp
  have um: "unat (ucast m :: u64) = unat m" by (rule unat_ucast_u32_u64)
  have "unat u < 2 ^ 64" using unsigned_less [of u] by simp
  with gt have "unat t + unat (ucast m :: u64) < 2 ^ 64" using um by simp
  then have "unat (t + ucast m) = unat t + unat m"
    using um by (simp add: unat_word_ariths)
  with gt show ?thesis by (simp add: word_less_nat_alt)
qed

text \<open>
  C3. A successful call of \<open>H5F_vfd_swmr_writer__delay_write\<close> stores the current tick
  plus \<open>max_lag\<close> when the lookup finds no entry for the page, the entry's
  \<open>delayed_flush\<close> when an entry is found whose \<open>delayed_flush\<close> is at least the current
  tick, and 0 otherwise. A nonzero stored value lies between the current tick and the
  current tick plus \<open>max_lag\<close>, both included and read as natural numbers. When the value
  computed is not zero and lies outside this interval the call fails and stores nothing.
\<close>

theorem delay_write_spec:
  "(H5F_vfd_swmr_writer__delay_write lookup shared page = Inr until \<longrightarrow>
      (delay_write_ie_ptr lookup shared page = None \<longrightarrow>
         until = tick_num shared + ucast (max_lag shared)) \<and>
      (\<forall>ie. delay_write_ie_ptr lookup shared page = Some ie \<longrightarrow>
         until = (if tick_num shared \<le> delayed_flush ie then delayed_flush ie else 0)) \<and>
      (until \<noteq> 0 \<longrightarrow>
         unat (tick_num shared) \<le> unat until \<and>
         unat until \<le> unat (tick_num shared) + unat (max_lag shared))) \<and>
   (delay_write_until lookup shared page \<noteq> 0 \<and>
    \<not> (unat (tick_num shared) \<le> unat (delay_write_until lookup shared page) \<and>
       unat (delay_write_until lookup shared page)
         \<le> unat (tick_num shared) + unat (max_lag shared)) \<longrightarrow>
      (\<exists>e. H5F_vfd_swmr_writer__delay_write lookup shared page = Inl e))"
proof (intro conjI impI)
  assume ok: "H5F_vfd_swmr_writer__delay_write lookup shared page = Inr until"
  then have u: "until = delay_write_until lookup shared page"
    by (simp add: H5F_vfd_swmr_writer__delay_write_def Let_def split: if_splits)
  show "delay_write_ie_ptr lookup shared page = None \<Longrightarrow> until = tick_num shared + ucast (max_lag shared)"
    using u by (simp add: delay_write_until_def)
  show "\<forall>ie. delay_write_ie_ptr lookup shared page = Some ie \<longrightarrow>
         until = (if tick_num shared \<le> delayed_flush ie then delayed_flush ie else 0)"
    using u by (simp add: delay_write_until_def)
  assume nz: "until \<noteq> 0"
  from ok u nz have r: "tick_num shared \<le> until" "until \<le> tick_num shared + ucast (max_lag shared)"
    by (simp_all add: H5F_vfd_swmr_writer__delay_write_def Let_def not_less split: if_splits)
  show "unat (tick_num shared) \<le> unat until" using r(1) by (simp add: word_le_nat_alt)
  show "unat until \<le> unat (tick_num shared) + unat (max_lag shared)"
    using r by (rule u64_add_u32_bounds)
next
  assume a: "delay_write_until lookup shared page \<noteq> 0 \<and>
    \<not> (unat (tick_num shared) \<le> unat (delay_write_until lookup shared page) \<and>
       unat (delay_write_until lookup shared page)
         \<le> unat (tick_num shared) + unat (max_lag shared))"
  then have "delay_write_until lookup shared page < tick_num shared \<or>
     tick_num shared + ucast (max_lag shared) < delay_write_until lookup shared page"
    using u64_outside_fails by blast
  with a show "\<exists>e. H5F_vfd_swmr_writer__delay_write lookup shared page = Inl e"
    by (auto simp add: H5F_vfd_swmr_writer__delay_write_def Let_def)
qed

theorem delay_write_spec_witness:
  "H5F_vfd_swmr_writer__delay_write example_lookup example_writer 5 = Inr 11 \<and>
   H5F_vfd_swmr_writer__delay_write example_lookup example_writer 3 = Inr 8 \<and>
   H5F_vfd_swmr_writer__delay_write example_lookup example_writer 9 = Inr 0 \<and>
   delay_write_until example_lookup example_writer 7 = 100 \<and>
   H5F_vfd_swmr_writer__delay_write example_lookup example_writer 7 = Inl H5E_SYSTEM"
proof -
  have r: "H5F_vfd_swmr_writer__delay_write example_lookup example_writer 5 = Inr 11"
    "H5F_vfd_swmr_writer__delay_write example_lookup example_writer 3 = Inr 8"
    "H5F_vfd_swmr_writer__delay_write example_lookup example_writer 9 = Inr 0"
    "delay_write_until example_lookup example_writer 7 = 100"
    "H5F_vfd_swmr_writer__delay_write example_lookup example_writer 7 = Inl H5E_SYSTEM"
    by (simp_all add: H5F_vfd_swmr_writer__delay_write_def delay_write_until_def
          delay_write_ie_ptr_def example_lookup_def example_writer_def example_entry_def)
  show ?thesis
    using r delay_write_spec [of example_lookup example_writer 5 11]
      delay_write_spec [of example_lookup example_writer 7 0]
    by simp
qed

text \<open>
  C10. While the writer has no in-memory index yet (\<open>mdf_idx\<close> is \<open>NULL\<close>, which the
  assertion allows only when the tick is at most 1), \<open>H5F_vfd_swmr_writer__delay_write\<close>
  succeeds for every page and stores the current tick plus \<open>max_lag\<close>.
\<close>

theorem delay_write_no_index:
  assumes "vfd_swmr shared" "vfd_swmr_writer shared" "mdf_idx shared = None" "tick_num shared \<le> 1"
  shows "H5F_vfd_swmr_writer__delay_write lookup shared page = Inr (tick_num shared + ucast (max_lag shared))"
proof -
  have um: "unat (ucast (max_lag shared) :: u64) = unat (max_lag shared)" by (rule unat_ucast_u32_u64)
  have "unat (max_lag shared) < 2 ^ 32" using unsigned_less [of "max_lag shared"] by simp
  moreover have "unat (tick_num shared) \<le> 1" using assms(4) by (simp add: word_le_nat_alt)
  ultimately have s: "unat (tick_num shared + ucast (max_lag shared)) = unat (tick_num shared) + unat (max_lag shared)"
    using um by (simp add: unat_word_ariths)
  then have "tick_num shared \<le> tick_num shared + ucast (max_lag shared)" by (simp add: word_le_nat_alt)
  then show ?thesis using assms
    by (simp add: H5F_vfd_swmr_writer__delay_write_def Let_def delay_write_until_def delay_write_ie_ptr_def not_less)
qed

theorem delay_write_no_index_witness:
  "H5F_vfd_swmr_writer__delay_write example_lookup example_fresh_writer 7 = Inr 6"
proof -
  have "vfd_swmr example_fresh_writer" "vfd_swmr_writer example_fresh_writer"
    "mdf_idx example_fresh_writer = None" "tick_num example_fresh_writer \<le> 1"
    by (simp_all add: example_fresh_writer_def example_writer_def)
  from delay_write_no_index [OF this, of example_lookup 7]
  show ?thesis by (simp add: example_fresh_writer_def example_writer_def)
qed

section \<open>Verification: the EOT queue\<close>

lemma timespeccmp_le_trans:
  "timespeccmp_le a b \<Longrightarrow> timespeccmp_le b c \<Longrightarrow> timespeccmp_le a c"
  by (auto simp: timespeccmp_le_def split: if_splits)

lemma timespeccmp_le_total: "\<not> timespeccmp_le a b \<Longrightarrow> timespeccmp_le b a"
  by (auto simp: timespeccmp_le_def split: if_splits)

lemma insert_from_tail_split:
  "\<exists>skipped rest. rq = skipped @ rest \<and>
     insert_from_tail e rq = skipped @ e # rest \<and>
     (\<forall>x\<in>set skipped. \<not> timespeccmp_le (end_of_tick_eot x) (end_of_tick_eot e)) \<and>
     (rest \<noteq> [] \<longrightarrow> timespeccmp_le (end_of_tick_eot (hd rest)) (end_of_tick_eot e))"
proof (induction rq)
  case Nil
  show ?case by simp
next
  case (Cons p ps)
  show ?case
  proof (cases "timespeccmp_le (end_of_tick_eot p) (end_of_tick_eot e)")
    case True
    have "p # ps = [] @ (p # ps) \<and> insert_from_tail e (p # ps) = [] @ e # (p # ps) \<and>
      (\<forall>x\<in>set []. \<not> timespeccmp_le (end_of_tick_eot x) (end_of_tick_eot e)) \<and>
      (p # ps \<noteq> [] \<longrightarrow> timespeccmp_le (end_of_tick_eot (hd (p # ps))) (end_of_tick_eot e))"
      using True by simp
    then show ?thesis by blast
  next
    case False
    from Cons.IH obtain skipped rest where
      h: "ps = skipped @ rest" "insert_from_tail e ps = skipped @ e # rest"
         "\<forall>x\<in>set skipped. \<not> timespeccmp_le (end_of_tick_eot x) (end_of_tick_eot e)"
         "rest \<noteq> [] \<longrightarrow> timespeccmp_le (end_of_tick_eot (hd rest)) (end_of_tick_eot e)"
      by blast
    have "p # ps = (p # skipped) @ rest \<and> insert_from_tail e (p # ps) = (p # skipped) @ e # rest \<and>
      (\<forall>x\<in>set (p # skipped). \<not> timespeccmp_le (end_of_tick_eot x) (end_of_tick_eot e)) \<and>
      (rest \<noteq> [] \<longrightarrow> timespeccmp_le (end_of_tick_eot (hd rest)) (end_of_tick_eot e))"
      using False h by simp
    then show ?thesis by blast
  qed
qed

lemma sorted_insert_between:
  assumes s: "sorted_wrt (\<lambda>a b. timespeccmp_le (end_of_tick_eot a) (end_of_tick_eot b)) (before @ after)"
    and a: "\<forall>x\<in>set after. \<not> timespeccmp_le (end_of_tick_eot x) (end_of_tick_eot e)"
    and b: "before \<noteq> [] \<longrightarrow> timespeccmp_le (end_of_tick_eot (last before)) (end_of_tick_eot e)"
  shows "sorted_wrt (\<lambda>a b. timespeccmp_le (end_of_tick_eot a) (end_of_tick_eot b)) (before @ e # after)"
proof -
  have le_before: "\<forall>x\<in>set before. timespeccmp_le (end_of_tick_eot x) (end_of_tick_eot e)"
  proof
    fix x assume x: "x \<in> set before"
    then have ne: "before \<noteq> []" by auto
    with b have lb: "timespeccmp_le (end_of_tick_eot (last before)) (end_of_tick_eot e)" by simp
    from s have sb: "sorted_wrt (\<lambda>a b. timespeccmp_le (end_of_tick_eot a) (end_of_tick_eot b)) before"
      by (simp add: sorted_wrt_append)
    show "timespeccmp_le (end_of_tick_eot x) (end_of_tick_eot e)"
    proof (cases "x = last before")
      case True with lb show ?thesis by simp
    next
      case False
      from ne have bl: "before = butlast before @ [last before]" by simp
      with x False have "x \<in> set (butlast before)"
        by (metis Un_iff empty_iff empty_set set_ConsD set_append)
      moreover from sb bl have "sorted_wrt (\<lambda>a b. timespeccmp_le (end_of_tick_eot a) (end_of_tick_eot b)) (butlast before @ [last before])" by simp
      ultimately have "timespeccmp_le (end_of_tick_eot x) (end_of_tick_eot (last before))"
        by (simp add: sorted_wrt_append)
      then show ?thesis using lb by (rule timespeccmp_le_trans)
    qed
  qed
  have ge_after: "\<forall>y\<in>set after. timespeccmp_le (end_of_tick_eot e) (end_of_tick_eot y)"
    using a timespeccmp_le_total by blast
  show ?thesis using s le_before ge_after by (auto simp: sorted_wrt_append)
qed

text \<open>
  C9. A successful \<open>H5F_vfd_swmr_insert_entry_eot\<close> puts the new entry into the queue
  without moving any other: every entry behind it has an \<open>end_of_tick\<close> that is not at
  most the new entry's, and the entry just before it, when there is one, has an
  \<open>end_of_tick\<close> at most the new entry's. So the new entry stands right after the
  rightmost entry whose \<open>end_of_tick\<close> is at most its own, behind the entries with an
  equal deadline, and at the head when there is no such entry. A queue sorted by
  \<open>end_of_tick\<close> ascending is still sorted afterwards.
\<close>

theorem insert_entry_eot_keeps_order:
  assumes ok: "H5F_vfd_swmr_insert_entry_eot env f shared g = (None, g')"
  shows "\<exists>before after.
           eot_queue_g g = before @ after \<and>
           eot_queue_g g' =
             before @
             \<lparr>vfd_swmr_writer_eot = vfd_swmr_writer shared, tick_num_eot = tick_num shared,
              end_of_tick_eot = end_of_tick shared, vfd_swmr_file = f\<rparr> # after \<and>
           (\<forall>x\<in>set after. \<not> timespeccmp_le (end_of_tick_eot x) (end_of_tick shared)) \<and>
           (before \<noteq> [] \<longrightarrow>
              timespeccmp_le (end_of_tick_eot (last before)) (end_of_tick shared)) \<and>
           (sorted_wrt (\<lambda>a b. timespeccmp_le (end_of_tick_eot a) (end_of_tick_eot b))
              (eot_queue_g g) \<longrightarrow>
            sorted_wrt (\<lambda>a b. timespeccmp_le (end_of_tick_eot a) (end_of_tick_eot b))
              (eot_queue_g g'))"
proof -
  let ?e = "\<lparr>vfd_swmr_writer_eot = vfd_swmr_writer shared, tick_num_eot = tick_num shared,
              end_of_tick_eot = end_of_tick shared, vfd_swmr_file = f\<rparr>"
  from ok have q': "eot_queue_g g' = rev (insert_from_tail ?e (rev (eot_queue_g g)))"
    by (auto simp: H5F_vfd_swmr_insert_entry_eot_def set_up_globals_def Let_def
             split: if_splits list.splits)
  obtain skipped rest where
    h: "rev (eot_queue_g g) = skipped @ rest"
       "insert_from_tail ?e (rev (eot_queue_g g)) = skipped @ ?e # rest"
       "\<forall>x\<in>set skipped. \<not> timespeccmp_le (end_of_tick_eot x) (end_of_tick_eot ?e)"
       "rest \<noteq> [] \<longrightarrow> timespeccmp_le (end_of_tick_eot (hd rest)) (end_of_tick_eot ?e)"
    using insert_from_tail_split [of "rev (eot_queue_g g)" ?e] by blast
  from h(1) have q: "eot_queue_g g = rev rest @ rev skipped"
    by (metis rev_append rev_rev_ident)
  from q' h(2) have q2: "eot_queue_g g' = rev rest @ ?e # rev skipped" by simp
  have a: "\<forall>x\<in>set (rev skipped). \<not> timespeccmp_le (end_of_tick_eot x) (end_of_tick shared)"
    using h(3) by simp
  have b: "rev rest \<noteq> [] \<longrightarrow> timespeccmp_le (end_of_tick_eot (last (rev rest))) (end_of_tick shared)"
    using h(4) by (simp add: last_rev)
  have c: "sorted_wrt (\<lambda>a b. timespeccmp_le (end_of_tick_eot a) (end_of_tick_eot b)) (eot_queue_g g) \<longrightarrow>
            sorted_wrt (\<lambda>a b. timespeccmp_le (end_of_tick_eot a) (end_of_tick_eot b)) (eot_queue_g g')"
  proof
    assume "sorted_wrt (\<lambda>a b. timespeccmp_le (end_of_tick_eot a) (end_of_tick_eot b)) (eot_queue_g g)"
    then have "sorted_wrt (\<lambda>a b. timespeccmp_le (end_of_tick_eot a) (end_of_tick_eot b)) (rev rest @ ?e # rev skipped)"
      using a b unfolding q by (intro sorted_insert_between) simp_all
    then show "sorted_wrt (\<lambda>a b. timespeccmp_le (end_of_tick_eot a) (end_of_tick_eot b)) (eot_queue_g g')"
      using q2 by simp
  qed
  show ?thesis using q q2 a b c by blast
qed

theorem insert_entry_eot_keeps_order_witness:
  "H5F_vfd_swmr_insert_entry_eot example_env 4 example_writer example_globals =
     (None, example_globals\<lparr>eot_queue_g :=
        [example_eot_entry 50 1, example_eot_entry 100 2,
         \<lparr>vfd_swmr_writer_eot = True, tick_num_eot = 6,
          end_of_tick_eot = \<lparr>tv_sec = 100, tv_nsec = 0\<rparr>, vfd_swmr_file = 4\<rparr>,
         example_eot_entry 150 3]\<rparr>) \<and>
   sorted_wrt (\<lambda>a b. timespeccmp_le (end_of_tick_eot a) (end_of_tick_eot b))
     (eot_queue_g example_globals) \<and>
   sorted_wrt (\<lambda>a b. timespeccmp_le (end_of_tick_eot a) (end_of_tick_eot b))
     [example_eot_entry 50 1, example_eot_entry 100 2,
         \<lparr>vfd_swmr_writer_eot = True, tick_num_eot = 6,
          end_of_tick_eot = \<lparr>tv_sec = 100, tv_nsec = 0\<rparr>, vfd_swmr_file = 4\<rparr>,
         example_eot_entry 150 3]"
proof -
  have r: "H5F_vfd_swmr_insert_entry_eot example_env 4 example_writer example_globals =
     (None, example_globals\<lparr>eot_queue_g :=
        [example_eot_entry 50 1, example_eot_entry 100 2,
         \<lparr>vfd_swmr_writer_eot = True, tick_num_eot = 6,
          end_of_tick_eot = \<lparr>tv_sec = 100, tv_nsec = 0\<rparr>, vfd_swmr_file = 4\<rparr>,
         example_eot_entry 150 3]\<rparr>)"
    by (simp add: H5F_vfd_swmr_insert_entry_eot_def set_up_globals_def example_env_def
          example_writer_def example_globals_def example_eot_entry_def timespeccmp_le_def)
  have s: "sorted_wrt (\<lambda>a b. timespeccmp_le (end_of_tick_eot a) (end_of_tick_eot b))
     (eot_queue_g example_globals)"
    by (simp add: example_globals_def example_eot_entry_def timespeccmp_le_def)
  from insert_entry_eot_keeps_order [OF r] s
  show ?thesis using r by auto
qed

section \<open>Verification: enlarging the shadow index\<close>

text \<open>
  C1. A successful \<open>vfd_swmr_enlarge_shadow_index\<close> doubles the index length, or sets it
  to the largest 32-bit value when the double does not fit; the new array has that
  length and starts with all the slots of the old one; \<open>writer_index_offset\<close> is the
  address the free-space manager returned for the new index; and one record is pushed
  to the head of the deferred-free queue, with the encoded size of the old index as its
  length and the current tick. The offset of that record is the new
  \<open>writer_index_offset\<close>, which the function has stored before it queues the record,
  and not the offset of the old index.
\<close>

theorem enlarge_shadow_index_effect:
  assumes ok: "vfd_swmr_enlarge_shadow_index env shared = (Inr new_idx, sh')"
  shows "\<exists>idx_addr.
           H5MV_alloc env (trace shared) (H5FD_MD_INDEX_SIZE (mdf_idx_len sh')) = Some idx_addr \<and>
           writer_index_offset sh' = idx_addr \<and>
           mdf_idx_len sh' =
             (if mdf_idx_len shared \<le> 0xFFFFFFFF - mdf_idx_len shared
              then mdf_idx_len shared * 2 else 0xFFFFFFFF) \<and>
           mdf_idx sh' = Some new_idx \<and>
           length new_idx = unat (mdf_idx_len sh') \<and>
           take (unat (mdf_idx_len shared)) new_idx =
             take (unat (mdf_idx_len shared))
               (case mdf_idx shared of None \<Rightarrow> [] | Some xs \<Rightarrow> xs) \<and>
           shadow_defrees sh' =
             \<lparr>offset_sd = idx_addr,
              length_sd = ucast (H5FD_MD_INDEX_SIZE (mdf_idx_len shared)),
              tick_num_sd = tick_num shared\<rparr> # shadow_defrees shared"
proof -
  let ?old_len = "mdf_idx_len shared"
  let ?new_len = "if 0xFFFFFFFF - ?old_len \<ge> ?old_len then ?old_len * 2 else 0xFFFFFFFF"
  have b: "unat ?old_len < 2 ^ 32" using unsigned_less [of ?old_len] by simp
  have le: "unat ?old_len \<le> unat ?new_len"
  proof (cases "0xFFFFFFFF - ?old_len \<ge> ?old_len")
    case True
    then have "unat ?old_len \<le> unat (0xFFFFFFFF - ?old_len)"
      by (simp add: word_le_nat_alt)
    moreover have "unat (0xFFFFFFFF - ?old_len) = 4294967295 - unat ?old_len"
      using b by (simp add: unat_sub_if')
    ultimately have "unat ?old_len * 2 < 2 ^ 32" by simp
    then have "unat (?old_len * 2) = unat ?old_len * 2"
      by (simp add: unat_word_ariths)
    with True show ?thesis by simp
  next
    case False
    with b show ?thesis by simp
  qed
  from ok obtain idx_addr where
    a: "H5MV_alloc env (trace shared) (H5FD_MD_INDEX_SIZE ?new_len) = Some idx_addr"
    by (auto simp: vfd_swmr_enlarge_shadow_index_def Let_def split: option.splits)
  from ok a have
    r: "mdf_idx_len sh' = ?new_len" "writer_index_offset sh' = idx_addr"
       "mdf_idx sh' = Some new_idx"
       "new_idx = take (unat ?old_len) (case mdf_idx shared of None \<Rightarrow> [] | Some xs \<Rightarrow> xs) @
                  map (mem_junk env) [unat ?old_len ..< unat ?new_len]"
       "unat ?old_len \<le> length (case mdf_idx shared of None \<Rightarrow> [] | Some xs \<Rightarrow> xs)"
       "shadow_defrees sh' =
             \<lparr>offset_sd = idx_addr,
              length_sd = ucast (H5FD_MD_INDEX_SIZE (mdf_idx_len shared)),
              tick_num_sd = tick_num shared\<rparr> # shadow_defrees shared"
    by (auto simp: vfd_swmr_enlarge_shadow_index_def shadow_range_defer_free_def
          log_event_def Let_def split: if_splits)
  have len: "length new_idx = unat ?new_len"
    using r(4,5) le by simp
  have tk: "take (unat ?old_len) new_idx =
      take (unat ?old_len) (case mdf_idx shared of None \<Rightarrow> [] | Some xs \<Rightarrow> xs)"
    using r(4,5) by simp
  show ?thesis using a r(1,2,3,6) len tk by simp
qed

theorem enlarge_shadow_index_effect_witness:
  "writer_index_offset example_writer = 4096 \<and>
   mdf_idx_len example_writer = 4 \<and>
   fst (vfd_swmr_enlarge_shadow_index example_env example_writer) =
     Inr [example_entry 3 2 8, example_entry 7 3 100, example_entry 9 4 2,
           example_entry 0 0 0, calloc_entry, calloc_entry, calloc_entry,
           calloc_entry] \<and>
   writer_index_offset (snd (vfd_swmr_enlarge_shadow_index example_env example_writer)) = 32768 \<and>
   mdf_idx_len (snd (vfd_swmr_enlarge_shadow_index example_env example_writer)) = 8 \<and>
   shadow_defrees (snd (vfd_swmr_enlarge_shadow_index example_env example_writer)) =
     [\<lparr>offset_sd = 32768, length_sd = 84, tick_num_sd = 6\<rparr>]"
proof -
  obtain r sh where e: "vfd_swmr_enlarge_shadow_index example_env example_writer = (r, sh)"
    by (cases "vfd_swmr_enlarge_shadow_index example_env example_writer")
  have r: "r = Inr [example_entry 3 2 8, example_entry 7 3 100, example_entry 9 4 2,
           example_entry 0 0 0, calloc_entry, calloc_entry, calloc_entry,
           calloc_entry]"
    using e [symmetric]
    by (simp add: vfd_swmr_enlarge_shadow_index_def shadow_range_defer_free_def log_event_def
          example_env_def example_writer_def H5FD_MD_INDEX_SIZE_def
          H5FD_MD_INDEX_ENTRY_SIZE_def Let_def upt_rec)
  from enlarge_shadow_index_effect [OF e [unfolded r]]
  show ?thesis
    unfolding e r
    by (simp add: example_env_def example_writer_def H5FD_MD_INDEX_SIZE_def
          H5FD_MD_INDEX_ENTRY_SIZE_def)
qed


section \<open>Verification: updating the metadata file\<close>

lemma construct_write_md_idx_effect:
  assumes "H5F__vfd_swmr_construct_write_md_idx env sh n index = (r, sh')"
  shows "(r \<noteq> None \<and> sh' = sh) \<or>
         (r = None \<and>
          sh' = log_event (MdWriteIndex (writer_index_offset sh)
                  (md_idx_image env (tick_num sh) n (take (unat n) (entries_of index)))) sh)"
  using assms
  by (auto simp: H5F__vfd_swmr_construct_write_md_idx_def entries_of_def Let_def
           split: if_splits)

lemma construct_write_md_hdr_effect:
  assumes "H5F__vfd_swmr_construct_write_md_hdr env sh n = (r, sh')"
  shows "(r \<noteq> None \<and> sh' = sh) \<or>
         (r = None \<and>
          sh' = log_event (MdWriteHeader H5FD_MD_HEADER_OFF (md_hdr_image env sh n)) sh)"
  using assms
  by (auto simp: H5F__vfd_swmr_construct_write_md_hdr_def Let_def split: if_splits)

lemma md_hdr_image_trace [simp]:
  "md_hdr_image env (sh\<lparr>trace := t\<rparr>) n = md_hdr_image env sh n"
  by (simp add: md_hdr_image_def)

lemma write_idx_and_hdr_effect:
  assumes "write_idx_and_hdr env sh n index = (r, sh')"
  shows "\<exists>w. sh' = sh\<lparr>trace := trace sh @ w\<rparr> \<and>
           (w = [] \<or>
            w = [MdWriteIndex (writer_index_offset sh)
                   (md_idx_image env (tick_num sh) n (take (unat n) (entries_of index)))] \<or>
            w = [MdWriteIndex (writer_index_offset sh)
                   (md_idx_image env (tick_num sh) n (take (unat n) (entries_of index))),
                 MdWriteHeader H5FD_MD_HEADER_OFF (md_hdr_image env sh n)]) \<and>
           (r = None \<longrightarrow>
            w = [MdWriteIndex (writer_index_offset sh)
                   (md_idx_image env (tick_num sh) n (take (unat n) (entries_of index))),
                 MdWriteHeader H5FD_MD_HEADER_OFF (md_hdr_image env sh n)]) \<and>
           (r \<noteq> None \<longrightarrow> (\<forall>ev\<in>set w. \<not> is_header_write ev))"
proof -
  obtain r1 sh1 where i: "H5F__vfd_swmr_construct_write_md_idx env sh n index = (r1, sh1)"
    by (cases "H5F__vfd_swmr_construct_write_md_idx env sh n index")
  show ?thesis
  proof (cases r1)
    case (Some e)
    with i assms construct_write_md_idx_effect [OF i]
    have "sh' = sh" "r = Some e" by (auto simp: write_idx_and_hdr_def)
    then have "sh' = sh\<lparr>trace := trace sh @ []\<rparr> \<and> r \<noteq> None" by simp
    then show ?thesis by fastforce
  next
    case None
    with construct_write_md_idx_effect [OF i]
    have sh1: "sh1 = log_event (MdWriteIndex (writer_index_offset sh)
                  (md_idx_image env (tick_num sh) n (take (unat n) (entries_of index)))) sh"
      by simp
    from None i assms
    have h: "H5F__vfd_swmr_construct_write_md_hdr env sh1 n = (r, sh')"
      by (simp add: write_idx_and_hdr_def)
    from construct_write_md_hdr_effect [OF h] show ?thesis
    proof
      assume "r \<noteq> None \<and> sh' = sh1"
      then have "r \<noteq> None \<and> sh' = sh\<lparr>trace := trace sh @
         [MdWriteIndex (writer_index_offset sh)
                   (md_idx_image env (tick_num sh) n (take (unat n) (entries_of index)))]\<rparr>"
        using sh1 by (simp add: log_event_def)
      then show ?thesis by fastforce
    next
      assume "r = None \<and>
          sh' = log_event (MdWriteHeader H5FD_MD_HEADER_OFF (md_hdr_image env sh1 n)) sh1"
      then have "r = None \<and> sh' = sh\<lparr>trace := trace sh @
         [MdWriteIndex (writer_index_offset sh)
                   (md_idx_image env (tick_num sh) n (take (unat n) (entries_of index))),
          MdWriteHeader H5FD_MD_HEADER_OFF (md_hdr_image env sh n)]\<rparr>"
        using sh1 by (simp add: log_event_def)
      then show ?thesis by fastforce
    qed
  qed
qed

lemma release_shadow_defrees_effect:
  assumes "release_shadow_defrees env sh rq = (r, sh', left)"
  shows "\<exists>freed. rq = freed @ left \<and>
           sh' = sh\<lparr>trace := trace sh @ map free_of freed\<rparr> \<and>
           (\<forall>d\<in>set freed. tick_num_sd d + ucast (max_lag sh) \<le> tick_num sh) \<and>
           (r = None \<and> left \<noteq> [] \<longrightarrow>
              tick_num sh < tick_num_sd (hd left) + ucast (max_lag sh))"
  using assms
proof (induction rq arbitrary: sh)
  case Nil
  then show ?case by simp
next
  case (Cons d ds)
  show ?case
  proof (cases "tick_num_sd d + ucast (max_lag sh) > tick_num sh")
    case True
    with Cons.prems have "r = None" "sh' = sh" "left = d # ds" by simp_all
    with True have "d # ds = [] @ left \<and> sh' = sh\<lparr>trace := trace sh @ map free_of []\<rparr> \<and>
       (\<forall>d\<in>set []. tick_num_sd d + ucast (max_lag sh) \<le> tick_num sh) \<and>
       (r = None \<and> left \<noteq> [] \<longrightarrow> tick_num sh < tick_num_sd (hd left) + ucast (max_lag sh))"
      by simp
    then show ?thesis by blast
  next
    case False
    show ?thesis
    proof (cases "H5MV_free env (trace sh) (offset_sd d) (ucast (length_sd d))")
      case f: False
      with False Cons.prems have "r = Some H5E_CANTFLUSH" "sh' = sh" "left = d # ds" by simp_all
      then have "d # ds = [] @ left \<and> sh' = sh\<lparr>trace := trace sh @ map free_of []\<rparr> \<and>
       (\<forall>d\<in>set []. tick_num_sd d + ucast (max_lag sh) \<le> tick_num sh) \<and>
       (r = None \<and> left \<noteq> [] \<longrightarrow> tick_num sh < tick_num_sd (hd left) + ucast (max_lag sh))"
        by simp
      then show ?thesis by blast
    next
      case t: True
      let ?sh1 = "log_event (MvFree (offset_sd d) (ucast (length_sd d))) sh"
      from False t Cons.prems have "release_shadow_defrees env ?sh1 ds = (r, sh', left)"
        by simp
      from Cons.IH [OF this] obtain freed where
        h: "ds = freed @ left" "sh' = ?sh1\<lparr>trace := trace ?sh1 @ map free_of freed\<rparr>"
           "\<forall>d\<in>set freed. tick_num_sd d + ucast (max_lag ?sh1) \<le> tick_num ?sh1"
           "r = None \<and> left \<noteq> [] \<longrightarrow>
              tick_num ?sh1 < tick_num_sd (hd left) + ucast (max_lag ?sh1)"
        by blast
      have "d # ds = (d # freed) @ left \<and>
         sh' = sh\<lparr>trace := trace sh @ map free_of (d # freed)\<rparr> \<and>
         (\<forall>d\<in>set (d # freed). tick_num_sd d + ucast (max_lag sh) \<le> tick_num sh) \<and>
         (r = None \<and> left \<noteq> [] \<longrightarrow> tick_num sh < tick_num_sd (hd left) + ucast (max_lag sh))"
        using h False by (simp add: log_event_def free_of_def not_less)
      then show ?thesis by blast
    qed
  qed
qed

lemma reclaim_shadow_defrees_effect:
  assumes "reclaim_shadow_defrees env sh = (r, sh')"
  shows "\<exists>reclaimed.
           shadow_defrees sh = shadow_defrees sh' @ reclaimed \<and>
           sh' = sh\<lparr>trace := trace sh @ map free_of (rev reclaimed),
                    shadow_defrees := shadow_defrees sh'\<rparr> \<and>
           (\<forall>d\<in>set reclaimed. tick_num_sd d + ucast (max_lag sh) \<le> tick_num sh) \<and>
           (reclaimed \<noteq> [] \<longrightarrow> ucast (max_lag sh) < tick_num sh) \<and>
           (r = None \<and> ucast (max_lag sh) < tick_num sh \<and> shadow_defrees sh' \<noteq> [] \<longrightarrow>
              tick_num sh < tick_num_sd (last (shadow_defrees sh')) + ucast (max_lag sh))"
proof (cases "tick_num sh \<le> ucast (max_lag sh)")
  case True
  with assms have "r = None" "sh' = sh" by (simp_all add: reclaim_shadow_defrees_def)
  moreover from True have "\<not> ucast (max_lag sh) < tick_num sh" by (simp add: not_less)
  ultimately have "shadow_defrees sh = shadow_defrees sh' @ [] \<and>
           sh' = sh\<lparr>trace := trace sh @ map free_of (rev []),
                    shadow_defrees := shadow_defrees sh'\<rparr> \<and>
           (\<forall>d\<in>set []. tick_num_sd d + ucast (max_lag sh) \<le> tick_num sh) \<and>
           ([] \<noteq> [] \<longrightarrow> ucast (max_lag sh) < tick_num sh) \<and>
           (r = None \<and> ucast (max_lag sh) < tick_num sh \<and> shadow_defrees sh' \<noteq> [] \<longrightarrow>
              tick_num sh < tick_num_sd (last (shadow_defrees sh')) + ucast (max_lag sh))"
    by simp
  then show ?thesis by blast
next
  case False
  obtain r1 sh1 left where
    rel: "release_shadow_defrees env sh (rev (shadow_defrees sh)) = (r1, sh1, left)"
    by (cases "release_shadow_defrees env sh (rev (shadow_defrees sh))")
  with False assms have res: "r = r1" "sh' = sh1\<lparr>shadow_defrees := rev left\<rparr>"
    by (simp_all add: reclaim_shadow_defrees_def)
  from release_shadow_defrees_effect [OF rel] obtain freed where
    h: "rev (shadow_defrees sh) = freed @ left"
       "sh1 = sh\<lparr>trace := trace sh @ map free_of freed\<rparr>"
       "\<forall>d\<in>set freed. tick_num_sd d + ucast (max_lag sh) \<le> tick_num sh"
       "r1 = None \<and> left \<noteq> [] \<longrightarrow> tick_num sh < tick_num_sd (hd left) + ucast (max_lag sh)"
    by blast
  from h(1) have q: "shadow_defrees sh = rev left @ rev freed"
    by (metis rev_append rev_rev_ident)
  have "shadow_defrees sh = shadow_defrees sh' @ rev freed \<and>
           sh' = sh\<lparr>trace := trace sh @ map free_of (rev (rev freed)),
                    shadow_defrees := shadow_defrees sh'\<rparr> \<and>
           (\<forall>d\<in>set (rev freed). tick_num_sd d + ucast (max_lag sh) \<le> tick_num sh) \<and>
           (rev freed \<noteq> [] \<longrightarrow> ucast (max_lag sh) < tick_num sh) \<and>
           (r = None \<and> ucast (max_lag sh) < tick_num sh \<and> shadow_defrees sh' \<noteq> [] \<longrightarrow>
              tick_num sh < tick_num_sd (last (shadow_defrees sh')) + ucast (max_lag sh))"
    using q res h False by (simp add: not_le last_rev)
  then show ?thesis by blast
qed

lemma frame_of_fields:
  assumes "frame_of a = frame_of b"
  shows "tick_num a = tick_num b" "max_lag a = max_lag b"
    "writer_index_offset a = writer_index_offset b" "fs_page_size a = fs_page_size b"
proof -
  have "tick_num (frame_of a) = tick_num (frame_of b)"
    "max_lag (frame_of a) = max_lag (frame_of b)"
    "writer_index_offset (frame_of a) = writer_index_offset (frame_of b)"
    "fs_page_size (frame_of a) = fs_page_size (frame_of b)"
    using assms by simp_all
  then show "tick_num a = tick_num b" "max_lag a = max_lag b"
    "writer_index_offset a = writer_index_offset b" "fs_page_size a = fs_page_size b"
    by (simp_all add: frame_of_def)
qed

lemma frame_of_trace [simp]: "frame_of (sh\<lparr>trace := t\<rparr>) = frame_of sh"
  by (simp add: frame_of_def)

lemma frame_of_defrees [simp]: "frame_of (sh\<lparr>shadow_defrees := q\<rparr>) = frame_of sh"
  by (simp add: frame_of_def)

lemma frame_of_hdr_image:
  "frame_of a = frame_of b \<Longrightarrow> md_hdr_image env a n = md_hdr_image env b n"
  using frame_of_fields [of a b] by (simp add: md_hdr_image_def)

lemma update_entry_frame:
  "update_entry env i sh index = (r, sh', index') \<Longrightarrow> frame_of sh' = frame_of sh"
  by (auto simp: update_entry_def shadow_image_defer_free_def shadow_range_defer_free_def
        log_event_def Let_def split: option.splits if_splits prod.splits)

lemma update_entry_queue:
  "update_entry env i sh index = (r, sh', index') \<Longrightarrow>
   \<exists>pushed. shadow_defrees sh' = pushed @ shadow_defrees sh"
  by (auto simp: update_entry_def shadow_image_defer_free_def shadow_range_defer_free_def
        log_event_def Let_def split: option.splits if_splits prod.splits)

lemma update_entry_trace:
  "update_entry env i sh index = (r, sh', index') \<Longrightarrow>
   \<exists>evs. trace sh' = trace sh @ evs \<and> (\<forall>ev\<in>set evs. is_loop_event ev)"
  by (auto simp: update_entry_def shadow_image_defer_free_def shadow_range_defer_free_def
        log_event_def Let_def split: option.splits if_splits prod.splits)

lemma map_update_same: "(map f xs)[i := f (xs ! i)] = map f xs"
proof (cases "i < length xs")
  case True
  then have "f (xs ! i) = map f xs ! i" by simp
  then show ?thesis by (simp only: list_update_id)
next
  case False
  then have "length (map f xs) \<le> i" by simp
  then show ?thesis by (rule list_update_beyond)
qed

lemma map_offset_update:
  "hdf5_page_offset e = hdf5_page_offset (xs ! i) \<Longrightarrow>
   map hdf5_page_offset (xs[i := e]) = map hdf5_page_offset xs"
  by (simp add: map_update map_update_same)

lemma map_offset_update_twice:
  assumes "hdf5_page_offset e = hdf5_page_offset (xs ! i)"
  shows "map hdf5_page_offset (xs[i := (xs[i := e] ! i)\<lparr>entry_ptr := None\<rparr>]) =
         map hdf5_page_offset xs"
proof (cases "i < length xs")
  case True
  then have "xs[i := e] ! i = e" by simp
  then show ?thesis using assms by (simp add: map_offset_update)
next
  case False
  then show ?thesis by (simp add: list_update_beyond)
qed

lemma update_entry_offsets:
  "update_entry env i sh index = (r, sh', index') \<Longrightarrow>
   map hdf5_page_offset index' = map hdf5_page_offset index"
  by (auto simp: update_entry_def Let_def map_offset_update map_offset_update_twice
           split: option.splits if_splits prod.splits)

lemma update_entries_effect:
  "update_entries env is sh index = (r, sh', index') \<Longrightarrow>
   frame_of sh' = frame_of sh \<and>
   (\<exists>pushed. shadow_defrees sh' = pushed @ shadow_defrees sh) \<and>
   (\<exists>evs. trace sh' = trace sh @ evs \<and> (\<forall>ev\<in>set evs. is_loop_event ev)) \<and>
   map hdf5_page_offset index' = map hdf5_page_offset index"
proof (induction "is" arbitrary: sh index)
  case Nil
  then show ?case by simp
next
  case (Cons i "is")
  obtain r1 sh1 index1 where u: "update_entry env i sh index = (r1, sh1, index1)"
    by (cases "update_entry env i sh index")
  note f1 = update_entry_frame [OF u] and o1 = update_entry_offsets [OF u]
  from update_entry_queue [OF u] obtain p1 where p1: "shadow_defrees sh1 = p1 @ shadow_defrees sh"
    by blast
  from update_entry_trace [OF u] obtain e1 where
    e1: "trace sh1 = trace sh @ e1" "\<forall>ev\<in>set e1. is_loop_event ev" by blast
  show ?case
  proof (cases r1)
    case (Some e)
    with u Cons.prems have "sh' = sh1" "index' = index1" by simp_all
    with f1 o1 p1 e1 show ?thesis by blast
  next
    case None
    with u Cons.prems have "update_entries env is sh1 index1 = (r, sh', index')" by simp
    from Cons.IH [OF this] obtain p2 e2 where
      h: "frame_of sh' = frame_of sh1" "shadow_defrees sh' = p2 @ shadow_defrees sh1"
         "trace sh' = trace sh1 @ e2" "\<forall>ev\<in>set e2. is_loop_event ev"
         "map hdf5_page_offset index' = map hdf5_page_offset index1"
      by blast
    have "frame_of sh' = frame_of sh" using h(1) f1 by simp
    moreover have "shadow_defrees sh' = (p2 @ p1) @ shadow_defrees sh" using h(2) p1 by simp
    moreover have "trace sh' = trace sh @ (e1 @ e2) \<and> (\<forall>ev\<in>set (e1 @ e2). is_loop_event ev)"
      using h(3,4) e1 by auto
    moreover have "map hdf5_page_offset index' = map hdf5_page_offset index"
      using h(5) o1 by simp
    ultimately show ?thesis by blast
  qed
qed

lemma write_entry_images_effect:
  assumes "write_entry_images env sh n index = (r, sh', index')"
  shows "frame_of sh' = frame_of sh \<and>
   (\<exists>pushed. shadow_defrees sh' = pushed @ shadow_defrees sh) \<and>
   (\<exists>evs. trace sh' = trace sh @ evs \<and> (\<forall>ev\<in>set evs. is_loop_event ev)) \<and>
   map hdf5_page_offset (entries_of index') = map hdf5_page_offset (entries_of index)"
proof (cases index)
  case None
  with assms have "sh' = sh" "index' = None" by (simp_all add: write_entry_images_def)
  then have "frame_of sh' = frame_of sh \<and> shadow_defrees sh' = [] @ shadow_defrees sh \<and>
    trace sh' = trace sh @ [] \<and> (\<forall>ev\<in>set []. is_loop_event ev) \<and>
    map hdf5_page_offset (entries_of index') = map hdf5_page_offset (entries_of index)"
    using None by simp
  then show ?thesis by blast
next
  case (Some xs)
  obtain r1 sh1 xs1 where u: "update_entries env [0 ..< unat n] sh xs = (r1, sh1, xs1)"
    by (cases "update_entries env [0 ..< unat n] sh xs")
  with Some assms have "sh' = sh1" "index' = Some xs1" by (simp_all add: write_entry_images_def)
  with update_entries_effect [OF u] Some show ?thesis by (simp add: entries_of_def)
qed

lemma length_qsort_insert [simp]: "length (qsort_insert e xs) = Suc (length xs)"
  by (induction xs) simp_all

lemma length_HDqsort [simp]: "length (HDqsort xs) = length xs"
  by (induction xs) simp_all

lemma mset_qsort_insert [simp]: "mset (qsort_insert e xs) = add_mset e (mset xs)"
  by (induction xs) simp_all

lemma mset_HDqsort [simp]: "mset (HDqsort xs) = mset xs"
  by (induction xs) simp_all

lemma no_duplicate_offsets_sorted:
  "no_duplicate_offsets xs \<Longrightarrow> sorted_wrt (<) (map hdf5_page_offset xs)"
proof (induction xs rule: no_duplicate_offsets.induct)
  case (3 x y ys)
  then have xy: "hdf5_page_offset x < hdf5_page_offset y"
    and s: "sorted_wrt (<) (map hdf5_page_offset (y # ys))" by simp_all
  from s have "\<forall>z\<in>set ys. hdf5_page_offset y < hdf5_page_offset z" by simp
  with xy have "\<forall>z\<in>set ys. hdf5_page_offset x < hdf5_page_offset z" by fastforce
  with xy s show ?case by simp
qed simp_all

lemma sort_index_Inr:
  assumes "sort_index n index = Inr index0"
  shows "sorted_wrt (<) (map hdf5_page_offset (take (unat n) (entries_of index0))) \<and>
         mset (map hdf5_page_offset (take (unat n) (entries_of index0))) =
           mset (map hdf5_page_offset (take (unat n) (entries_of index)))"
proof (cases "n > 0")
  case False
  then have "n = 0" by (simp add: word_greater_zero_iff)
  then show ?thesis by simp
next
  case True
  with assms obtain xs where x: "index = Some xs" "unat n \<le> length xs"
    "no_duplicate_offsets (HDqsort (take (unat n) xs))"
    "index0 = Some (HDqsort (take (unat n) xs) @ drop (unat n) xs)"
    by (auto simp: sort_index_def Let_def split: option.splits if_splits)
  have "take (unat n) (entries_of index0) = HDqsort (take (unat n) xs)"
    using x(2,4) by (simp add: entries_of_def)
  moreover have "mset (map hdf5_page_offset (HDqsort (take (unat n) xs))) =
     mset (map hdf5_page_offset (take (unat n) xs))"
    by simp
  ultimately show ?thesis
    using no_duplicate_offsets_sorted [OF x(3)] x(1) by (simp add: entries_of_def)
qed

lemma qsort_insert_ascending:
  assumes "no_duplicate_offsets xs" and "hdf5_page_offset e \<notin> set (map hdf5_page_offset xs)"
  shows "no_duplicate_offsets (qsort_insert e xs)"
  using assms
proof (induction xs rule: no_duplicate_offsets.induct)
  case 1
  then show ?case by simp
next
  case (2 x)
  then show ?case by (auto simp: H5F__idx_entry_cmp_def)
next
  case (3 x y ys)
  then show ?case by (auto simp: H5F__idx_entry_cmp_def)
qed

lemma HDqsort_ascending:
  "distinct (map hdf5_page_offset xs) \<Longrightarrow> no_duplicate_offsets (HDqsort xs)"
proof (induction xs)
  case Nil
  then show ?case by simp
next
  case (Cons e es)
  then have "no_duplicate_offsets (HDqsort es)" by simp
  moreover have "set (map hdf5_page_offset (HDqsort es)) = set (map hdf5_page_offset es)"
    by (metis mset_HDqsort mset_map set_mset_mset)
  with Cons.prems
  have "hdf5_page_offset e \<notin> set (map hdf5_page_offset (HDqsort es))" by simp
  ultimately show ?case by (simp add: qsort_insert_ascending)
qed

lemma sort_index_succeeds:
  assumes "unat n \<le> length xs" and "distinct (map hdf5_page_offset (take (unat n) xs))"
  shows "sort_index n (Some xs) =
           Inr (Some (if n > 0 then HDqsort (take (unat n) xs) @ drop (unat n) xs else xs))"
  using assms HDqsort_ascending [of "take (unat n) xs"]
  by (simp add: sort_index_def Let_def not_less)

lemma update_metadata_file_effect:
  assumes run: "H5F_update_vfd_swmr_metadata_file env shared n index = (r, sh', index')"
  shows "\<exists>pushed evs w reclaimed.
     frame_of sh' = frame_of shared \<and>
     trace sh' = trace shared @ evs @ w @ map free_of (rev reclaimed) \<and>
     pushed @ shadow_defrees shared = shadow_defrees sh' @ reclaimed \<and>
     (\<forall>ev\<in>set evs. is_loop_event ev) \<and>
     (w = [] \<or>
      w = [MdWriteIndex (writer_index_offset shared)
             (md_idx_image env (tick_num shared) n (take (unat n) (entries_of index')))] \<or>
      w = [MdWriteIndex (writer_index_offset shared)
             (md_idx_image env (tick_num shared) n (take (unat n) (entries_of index'))),
           MdWriteHeader H5FD_MD_HEADER_OFF (md_hdr_image env shared n)]) \<and>
     (r = None \<or> reclaimed \<noteq> [] \<longrightarrow> length w = 2) \<and>
     (\<forall>d\<in>set reclaimed. tick_num_sd d + ucast (max_lag shared) \<le> tick_num shared) \<and>
     (reclaimed \<noteq> [] \<longrightarrow> ucast (max_lag shared) < tick_num shared) \<and>
     (r = None \<and> ucast (max_lag shared) < tick_num shared \<and> shadow_defrees sh' \<noteq> [] \<longrightarrow>
        tick_num shared < tick_num_sd (last (shadow_defrees sh')) + ucast (max_lag shared)) \<and>
     (length w = 2 \<longrightarrow>
        sorted_wrt (<) (map hdf5_page_offset (take (unat n) (entries_of index'))) \<and>
        mset (map hdf5_page_offset (take (unat n) (entries_of index'))) =
          mset (map hdf5_page_offset (take (unat n) (entries_of index))))"
    (is "\<exists>pushed evs w reclaimed. ?P pushed evs w reclaimed")
proof (cases "sort_index n index")
  case (Inl e)
  with run have "sh' = shared" "r = Some e"
    by (simp_all add: H5F_update_vfd_swmr_metadata_file_def)
  then have "?P [] [] [] []" by simp
  then show ?thesis by blast
next
  case (Inr index0)
  note srt = sort_index_Inr [OF Inr]
  obtain r1 sh1 index1 where
    st1: "write_entry_images env shared n index0 = (r1, sh1, index1)"
    by (cases "write_entry_images env shared n index0")
  from write_entry_images_effect [OF st1] obtain pushed evs where
    e1: "frame_of sh1 = frame_of shared" "shadow_defrees sh1 = pushed @ shadow_defrees shared"
        "trace sh1 = trace shared @ evs" "\<forall>ev\<in>set evs. is_loop_event ev"
        "map hdf5_page_offset (entries_of index1) = map hdf5_page_offset (entries_of index0)"
    by blast
  note f1 = frame_of_fields [OF e1(1)]
  have srt1: "sorted_wrt (<) (map hdf5_page_offset (take (unat n) (entries_of index1))) \<and>
        mset (map hdf5_page_offset (take (unat n) (entries_of index1))) =
          mset (map hdf5_page_offset (take (unat n) (entries_of index)))"
    using srt e1(5) by (simp flip: take_map)
  show ?thesis
  proof (cases r1)
    case (Some e)
    with run Inr st1 have "sh' = sh1" "r = Some e" "index' = index1"
      by (simp_all add: H5F_update_vfd_swmr_metadata_file_def)
    with e1 have "?P pushed evs [] []" by simp
    then show ?thesis by blast
  next
    case None
    obtain r2 sh2 where st2: "write_idx_and_hdr env sh1 n index1 = (r2, sh2)"
      by (cases "write_idx_and_hdr env sh1 n index1")
    from write_idx_and_hdr_effect [OF st2] obtain w where
      e2: "sh2 = sh1\<lparr>trace := trace sh1 @ w\<rparr>"
          "w = [] \<or>
            w = [MdWriteIndex (writer_index_offset sh1)
                   (md_idx_image env (tick_num sh1) n (take (unat n) (entries_of index1)))] \<or>
            w = [MdWriteIndex (writer_index_offset sh1)
                   (md_idx_image env (tick_num sh1) n (take (unat n) (entries_of index1))),
                 MdWriteHeader H5FD_MD_HEADER_OFF (md_hdr_image env sh1 n)]"
          "r2 = None \<longrightarrow>
            w = [MdWriteIndex (writer_index_offset sh1)
                   (md_idx_image env (tick_num sh1) n (take (unat n) (entries_of index1))),
                 MdWriteHeader H5FD_MD_HEADER_OFF (md_hdr_image env sh1 n)]"
      by blast
    have w: "w = [] \<or>
      w = [MdWriteIndex (writer_index_offset shared)
             (md_idx_image env (tick_num shared) n (take (unat n) (entries_of index1)))] \<or>
      w = [MdWriteIndex (writer_index_offset shared)
             (md_idx_image env (tick_num shared) n (take (unat n) (entries_of index1))),
           MdWriteHeader H5FD_MD_HEADER_OFF (md_hdr_image env shared n)]"
      using e2(2) f1 frame_of_hdr_image [OF e1(1)] by simp
    have f2: "frame_of sh2 = frame_of shared" "shadow_defrees sh2 = pushed @ shadow_defrees shared"
      "trace sh2 = trace shared @ evs @ w"
      using e2(1) e1 by simp_all
    show ?thesis
    proof (cases r2)
      case (Some e)
      with run Inr st1 None st2 have res: "sh' = sh2" "r = Some e" "index' = index1"
        by (simp_all add: H5F_update_vfd_swmr_metadata_file_def)
      have "?P pushed evs w []"
        using res f2 e1(4) w srt1 by simp
      then show ?thesis by blast
    next
      case n2: None
      with e2(3) have w2: "length w = 2" by simp
      obtain r3 sh3 where st3: "reclaim_shadow_defrees env sh2 = (r3, sh3)"
        by (cases "reclaim_shadow_defrees env sh2")
      with run Inr st1 None st2 n2 have res: "sh' = sh3" "r = r3" "index' = index1"
        by (simp_all add: H5F_update_vfd_swmr_metadata_file_def)
      from reclaim_shadow_defrees_effect [OF st3] obtain reclaimed where
        e3: "shadow_defrees sh2 = shadow_defrees sh3 @ reclaimed"
            "sh3 = sh2\<lparr>trace := trace sh2 @ map free_of (rev reclaimed),
                    shadow_defrees := shadow_defrees sh3\<rparr>"
            "\<forall>d\<in>set reclaimed. tick_num_sd d + ucast (max_lag sh2) \<le> tick_num sh2"
            "reclaimed \<noteq> [] \<longrightarrow> ucast (max_lag sh2) < tick_num sh2"
            "r3 = None \<and> ucast (max_lag sh2) < tick_num sh2 \<and> shadow_defrees sh3 \<noteq> [] \<longrightarrow>
              tick_num sh2 < tick_num_sd (last (shadow_defrees sh3)) + ucast (max_lag sh2)"
        by blast
      note f3 = frame_of_fields [OF f2(1)]
      have fr: "frame_of sh3 = frame_of shared"
        by (subst e3(2)) (simp add: f2(1))
      have tr: "trace sh3 = trace shared @ evs @ w @ map free_of (rev reclaimed)"
        by (subst e3(2)) (simp add: f2(3))
      have "?P pushed evs w reclaimed"
        using res fr tr e3(1,3,4,5) f2(2) f3 e1(4) w w2 srt1 by simp
      then show ?thesis by blast
    qed
  qed
qed

lemma loop_event_kinds:
  "is_loop_event ev \<Longrightarrow>
   \<not> is_mv_free ev \<and> \<not> is_header_write ev \<and> (is_md_write ev \<longrightarrow> is_image_write ev)"
  by (cases ev) simp_all

lemma free_of_kinds [simp]:
  "is_mv_free (free_of d)" "\<not> is_md_write (free_of d)" "\<not> is_header_write (free_of d)"
  by (simp_all add: free_of_def)

lemma filter_none: "(\<forall>x\<in>set xs. \<not> P x) \<Longrightarrow> filter P xs = []"
  by (induction xs) simp_all

lemma filter_all: "(\<forall>x\<in>set xs. P x) \<Longrightarrow> filter P xs = xs"
  by (induction xs) simp_all

lemma u64_add_u32_le_nat:
  fixes t c :: u64 and m :: u32
  assumes "c + ucast m \<le> t" "unat c + unat m < 2 ^ 64"
  shows "unat m \<le> unat t - unat c"
proof -
  have "unat (c + ucast m) = unat c + unat m"
    using assms(2) by (simp add: unat_word_ariths unat_ucast_u32_u64)
  with assms(1) have "unat c + unat m \<le> unat t" by (simp add: word_le_nat_alt)
  then show ?thesis by simp
qed

lemma length_UINT32ENCODE [simp]: "length (UINT32ENCODE x) = 4"
  by (simp add: UINT32ENCODE_def)

lemma length_UINT64ENCODE [simp]: "length (UINT64ENCODE x) = 8"
  by (simp add: UINT64ENCODE_def)

lemma length_encode_entries [simp]:
  "length (concat (map encode_idx_entry es)) = 16 * length es"
  by (induction es) (simp_all add: encode_idx_entry_def)

lemma length_md_idx_image [simp]:
  "length (md_idx_image env t n es) = 20 + 16 * length es"
  by (simp add: md_idx_image_def Let_def H5FD_MD_INDEX_MAGIC_def)

lemma length_md_hdr_image [simp]: "length (md_hdr_image env sh n) = 36"
  by (simp add: md_hdr_image_def Let_def H5FD_MD_HEADER_MAGIC_def)


text \<open>
  C2, what the code does. In a call of \<open>H5F_update_vfd_swmr_metadata_file\<close> at tick
  \<open>t\<close>, whether it succeeds or fails, the records handed back to the free-space manager
  are the last records of the deferred-free queue (the queue with the records this call
  pushed), they are freed from the tail on, and each has \<open>t > max_lag\<close> and
  \<open>tick_created + max_lag \<le> t\<close> in 64-bit arithmetic. When that sum does not wrap
  around, this is \<open>t - tick_created \<ge> max_lag\<close>: a record is released as soon as its age
  equals \<open>max_lag\<close>, where the comment above the loop ("resided on the list for more than
  max_lag ticks") and the claim ask for an age above \<open>max_lag\<close>. When the sum wraps
  around, nothing is known of the age. When the call succeeds with \<open>t > max_lag\<close> and
  leaves a record in the queue, the last one left has \<open>tick_created + max_lag > t\<close> in
  64-bit arithmetic: the walk has stopped at the first record still within the window.
\<close>

theorem reclaimed_after_max_lag_ticks:
  assumes run: "H5F_update_vfd_swmr_metadata_file env shared n index = (r, sh', index')"
  shows "\<exists>pushed reclaimed.
     pushed @ shadow_defrees shared = shadow_defrees sh' @ reclaimed \<and>
     filter is_mv_free (drop (length (trace shared)) (trace sh')) =
       map free_of (rev reclaimed) \<and>
     (\<forall>d\<in>set reclaimed.
        ucast (max_lag shared) < tick_num shared \<and>
        tick_num_sd d + ucast (max_lag shared) \<le> tick_num shared \<and>
        (unat (tick_num_sd d) + unat (max_lag shared) < 2 ^ 64 \<longrightarrow>
           unat (max_lag shared) \<le> unat (tick_num shared) - unat (tick_num_sd d))) \<and>
     (r = None \<and> ucast (max_lag shared) < tick_num shared \<and> shadow_defrees sh' \<noteq> [] \<longrightarrow>
        tick_num shared <
          tick_num_sd (last (shadow_defrees sh')) + ucast (max_lag shared))"
proof -
  from update_metadata_file_effect [OF run] obtain pushed evs w reclaimed where
    h: "trace sh' = trace shared @ evs @ w @ map free_of (rev reclaimed)"
       "pushed @ shadow_defrees shared = shadow_defrees sh' @ reclaimed"
       "\<forall>ev\<in>set evs. is_loop_event ev"
       "w = [] \<or>
        w = [MdWriteIndex (writer_index_offset shared)
             (md_idx_image env (tick_num shared) n (take (unat n) (entries_of index')))] \<or>
        w = [MdWriteIndex (writer_index_offset shared)
             (md_idx_image env (tick_num shared) n (take (unat n) (entries_of index'))),
           MdWriteHeader H5FD_MD_HEADER_OFF (md_hdr_image env shared n)]"
       "\<forall>d\<in>set reclaimed. tick_num_sd d + ucast (max_lag shared) \<le> tick_num shared"
       "reclaimed \<noteq> [] \<longrightarrow> ucast (max_lag shared) < tick_num shared"
       "r = None \<and> ucast (max_lag shared) < tick_num shared \<and> shadow_defrees sh' \<noteq> [] \<longrightarrow>
        tick_num shared < tick_num_sd (last (shadow_defrees sh')) + ucast (max_lag shared)"
    by blast
  have "filter is_mv_free evs = []"
    using h(3) loop_event_kinds by (intro filter_none) blast
  moreover have "filter is_mv_free w = []" using h(4) by auto
  moreover have "filter is_mv_free (map free_of (rev reclaimed)) = map free_of (rev reclaimed)"
    by (intro filter_all) auto
  ultimately have fr: "filter is_mv_free (drop (length (trace shared)) (trace sh')) =
       map free_of (rev reclaimed)"
    using h(1) by simp
  have old: "\<forall>d\<in>set reclaimed.
        ucast (max_lag shared) < tick_num shared \<and>
        tick_num_sd d + ucast (max_lag shared) \<le> tick_num shared \<and>
        (unat (tick_num_sd d) + unat (max_lag shared) < 2 ^ 64 \<longrightarrow>
           unat (max_lag shared) \<le> unat (tick_num shared) - unat (tick_num_sd d))"
  proof
    fix d assume d: "d \<in> set reclaimed"
    then have ne: "reclaimed \<noteq> []" by auto
    from d h(5) have le: "tick_num_sd d + ucast (max_lag shared) \<le> tick_num shared" by blast
    show "ucast (max_lag shared) < tick_num shared \<and>
        tick_num_sd d + ucast (max_lag shared) \<le> tick_num shared \<and>
        (unat (tick_num_sd d) + unat (max_lag shared) < 2 ^ 64 \<longrightarrow>
           unat (max_lag shared) \<le> unat (tick_num shared) - unat (tick_num_sd d))"
      using ne h(6) le u64_add_u32_le_nat [OF le] by blast
  qed
  show ?thesis using h(2,7) fr old by blast
qed

theorem reclaimed_after_max_lag_ticks_witness:
  "fst (H5F_update_vfd_swmr_metadata_file example_env example_due_writer 3
          (Some example_dirty_index)) = None \<and>
   shadow_defrees example_due_writer =
     [\<lparr>offset_sd = 16384, length_sd = 4096, tick_num_sd = 2\<rparr>] @
     [\<lparr>offset_sd = 12288, length_sd = 4096, tick_num_sd = 1\<rparr>] \<and>
   shadow_defrees
     (fst (snd (H5F_update_vfd_swmr_metadata_file example_env example_due_writer 3
                  (Some example_dirty_index)))) =
     [\<lparr>offset_sd = 16384, length_sd = 4, tick_num_sd = 6\<rparr>,
      \<lparr>offset_sd = 16384, length_sd = 4096, tick_num_sd = 2\<rparr>] \<and>
   filter is_mv_free
     (trace (fst (snd (H5F_update_vfd_swmr_metadata_file example_env example_due_writer 3
                         (Some example_dirty_index))))) =
     [free_of \<lparr>offset_sd = 12288, length_sd = 4096, tick_num_sd = 1\<rparr>] \<and>
   (1 :: u64) + ucast (max_lag example_due_writer) \<le> tick_num example_due_writer \<and>
   tick_num example_due_writer < (2 :: u64) + ucast (max_lag example_due_writer)"
proof -
  obtain r sh' index' where
    run: "H5F_update_vfd_swmr_metadata_file example_env example_due_writer 3
            (Some example_dirty_index) = (r, sh', index')"
    by (cases "H5F_update_vfd_swmr_metadata_file example_env example_due_writer 3
            (Some example_dirty_index)")
  have vals: "r = None"
    "shadow_defrees sh' =
     [\<lparr>offset_sd = 16384, length_sd = 4, tick_num_sd = 6\<rparr>,
      \<lparr>offset_sd = 16384, length_sd = 4096, tick_num_sd = 2\<rparr>]"
    "filter is_mv_free (trace sh') =
     [free_of \<lparr>offset_sd = 12288, length_sd = 4096, tick_num_sd = 1\<rparr>]"
    using run [symmetric] by (simp_all add: update_defs example_defs free_of_def upt_rec)
  from reclaimed_after_max_lag_ticks [OF run]
  show ?thesis unfolding run using vals by (simp add: example_defs)
qed


text \<open>
  The claim C2 and the comment above the reclamation loop ask for
  \<open>t - tick_created > max_lag\<close>. At tick 6 with \<open>max_lag = 5\<close> the record created at tick 1
  is handed back to the free-space manager, after residing on the list for 5 ticks, and
  6 - 1 is not above 5; the record created at tick 2 stays.
\<close>

theorem reclaimed_strictly_older_counterexample:
  "shadow_defrees example_due_writer =
     [\<lparr>offset_sd = 16384, length_sd = 4096, tick_num_sd = 2\<rparr>,
      \<lparr>offset_sd = 12288, length_sd = 4096, tick_num_sd = 1\<rparr>] \<and>
   tick_num example_due_writer = 6 \<and>
   max_lag example_due_writer = 5 \<and>
   fst (H5F_update_vfd_swmr_metadata_file example_env example_due_writer 0 None) = None \<and>
   filter is_mv_free
     (trace (fst (snd (H5F_update_vfd_swmr_metadata_file example_env example_due_writer
                         0 None)))) = [MvFree 12288 4096] \<and>
   shadow_defrees
     (fst (snd (H5F_update_vfd_swmr_metadata_file example_env example_due_writer 0 None))) =
     [\<lparr>offset_sd = 16384, length_sd = 4096, tick_num_sd = 2\<rparr>] \<and>
   \<not> (unat (6 :: u64) - unat (1 :: u64) > unat (5 :: u32))"
  by (simp add: update_defs example_defs)


text \<open>
  C4. In a successful call of \<open>H5F_update_vfd_swmr_metadata_file\<close> the writes to the
  shadow file are, in this order: writes of page images, then one write of the encoded
  index at \<open>writer_index_offset\<close>, then one write of the encoded header at offset 0,
  which is the last write of the call.
\<close>

theorem shadow_writes_in_order:
  assumes run: "H5F_update_vfd_swmr_metadata_file env shared n index = (None, sh', index')"
  shows "\<exists>images.
     filter is_md_write (drop (length (trace shared)) (trace sh')) =
       images @
       [MdWriteIndex (writer_index_offset shared)
          (md_idx_image env (tick_num shared) n (take (unat n) (entries_of index'))),
        MdWriteHeader H5FD_MD_HEADER_OFF (md_hdr_image env shared n)] \<and>
     (\<forall>ev\<in>set images. is_image_write ev)"
proof -
  from update_metadata_file_effect [OF run] obtain pushed evs w reclaimed where
    h: "trace sh' = trace shared @ evs @ w @ map free_of (rev reclaimed)"
       "\<forall>ev\<in>set evs. is_loop_event ev"
       "w = [] \<or>
        w = [MdWriteIndex (writer_index_offset shared)
             (md_idx_image env (tick_num shared) n (take (unat n) (entries_of index')))] \<or>
        w = [MdWriteIndex (writer_index_offset shared)
             (md_idx_image env (tick_num shared) n (take (unat n) (entries_of index'))),
           MdWriteHeader H5FD_MD_HEADER_OFF (md_hdr_image env shared n)]"
       "length w = 2"
    by auto
  from h(3,4) have w: "w = [MdWriteIndex (writer_index_offset shared)
             (md_idx_image env (tick_num shared) n (take (unat n) (entries_of index'))),
           MdWriteHeader H5FD_MD_HEADER_OFF (md_hdr_image env shared n)]" by auto
  have "filter is_md_write (map free_of (rev reclaimed)) = []"
    by (intro filter_none) auto
  then have "filter is_md_write (drop (length (trace shared)) (trace sh')) =
     filter is_md_write evs @ w"
    using h(1) w by simp
  moreover have "\<forall>ev\<in>set (filter is_md_write evs). is_image_write ev"
    using h(2) loop_event_kinds by auto
  ultimately show ?thesis using w by blast
qed

theorem shadow_writes_in_order_witness:
  "fst (H5F_update_vfd_swmr_metadata_file example_env example_writer 3
          (Some example_dirty_index)) = None \<and>
   map is_image_write
     (filter is_md_write
        (trace (fst (snd (H5F_update_vfd_swmr_metadata_file example_env example_writer 3
                            (Some example_dirty_index)))))) =
     [True, True, False, False] \<and>
   map is_header_write
     (filter is_md_write
        (trace (fst (snd (H5F_update_vfd_swmr_metadata_file example_env example_writer 3
                            (Some example_dirty_index)))))) =
     [False, False, False, True]"
proof -
  obtain r sh' index' where
    run: "H5F_update_vfd_swmr_metadata_file example_env example_writer 3
            (Some example_dirty_index) = (r, sh', index')"
    by (cases "H5F_update_vfd_swmr_metadata_file example_env example_writer 3
            (Some example_dirty_index)")
  have r: "r = None"
    and vals: "map is_image_write (filter is_md_write (trace sh')) = [True, True, False, False]"
      "map is_header_write (filter is_md_write (trace sh')) = [False, False, False, True]"
    using run [symmetric] by (simp_all add: update_defs example_defs upt_rec)
  from shadow_writes_in_order [OF run [unfolded r]]
  show ?thesis unfolding run r using vals by simp
qed


text \<open>
  C5. Whenever a call of \<open>H5F_update_vfd_swmr_metadata_file\<close> writes the header, the
  first \<open>num_entries\<close> entries of the index array, as the loop over the entries leaves
  them and as they are encoded into the index written before the header, are strictly
  ascending by \<open>hdf5_page_offset\<close>, and their offsets are those of the first
  \<open>num_entries\<close> entries passed in. The array is not changed after the loop, so the
  array returned is the array at the time of the header write.
\<close>

theorem index_sorted_at_header_write:
  assumes run: "H5F_update_vfd_swmr_metadata_file env shared n index = (r, sh', index')"
    and hdr: "\<exists>ev\<in>set (drop (length (trace shared)) (trace sh')). is_header_write ev"
  shows "sorted_wrt (<) (map hdf5_page_offset (take (unat n) (entries_of index'))) \<and>
         mset (map hdf5_page_offset (take (unat n) (entries_of index'))) =
           mset (map hdf5_page_offset (take (unat n) (entries_of index))) \<and>
         MdWriteIndex (writer_index_offset shared)
           (md_idx_image env (tick_num shared) n (take (unat n) (entries_of index')))
           \<in> set (drop (length (trace shared)) (trace sh'))"
proof -
  from update_metadata_file_effect [OF run] obtain pushed evs w reclaimed where
    h: "trace sh' = trace shared @ evs @ w @ map free_of (rev reclaimed)"
       "\<forall>ev\<in>set evs. is_loop_event ev"
       "w = [] \<or>
        w = [MdWriteIndex (writer_index_offset shared)
             (md_idx_image env (tick_num shared) n (take (unat n) (entries_of index')))] \<or>
        w = [MdWriteIndex (writer_index_offset shared)
             (md_idx_image env (tick_num shared) n (take (unat n) (entries_of index'))),
           MdWriteHeader H5FD_MD_HEADER_OFF (md_hdr_image env shared n)]"
       "length w = 2 \<longrightarrow>
        sorted_wrt (<) (map hdf5_page_offset (take (unat n) (entries_of index'))) \<and>
        mset (map hdf5_page_offset (take (unat n) (entries_of index'))) =
          mset (map hdf5_page_offset (take (unat n) (entries_of index)))"
    by blast
  from hdr h(1) obtain ev where
    ev: "ev \<in> set evs \<union> set w \<union> set (map free_of (rev reclaimed))" "is_header_write ev"
    by auto
  have "ev \<notin> set evs" using ev(2) h(2) loop_event_kinds by blast
  moreover have "ev \<notin> set (map free_of (rev reclaimed))" using ev(2) by auto
  ultimately have "ev \<in> set w" using ev(1) by blast
  with ev(2) h(3) have w: "w = [MdWriteIndex (writer_index_offset shared)
             (md_idx_image env (tick_num shared) n (take (unat n) (entries_of index'))),
           MdWriteHeader H5FD_MD_HEADER_OFF (md_hdr_image env shared n)]" by auto
  then have "length w = 2" by simp
  with h(4) w h(1) show ?thesis by simp
qed

theorem index_sorted_at_header_write_witness:
  "(\<exists>ev\<in>set (drop (length (trace example_writer))
       (trace (fst (snd (H5F_update_vfd_swmr_metadata_file example_env example_writer 3
                           (Some example_dirty_index)))))). is_header_write ev) \<and>
   map hdf5_page_offset (take (unat (3 :: u32)) example_dirty_index) = [9, 3, 7] \<and>
   map hdf5_page_offset
     (take (unat (3 :: u32))
        (entries_of (snd (snd (H5F_update_vfd_swmr_metadata_file example_env example_writer 3
                                 (Some example_dirty_index)))))) = [3, 7, 9] \<and>
   sorted_wrt (<) [3, 7, 9 :: u64]"
proof -
  obtain r sh' index' where
    run: "H5F_update_vfd_swmr_metadata_file example_env example_writer 3
            (Some example_dirty_index) = (r, sh', index')"
    by (cases "H5F_update_vfd_swmr_metadata_file example_env example_writer 3
            (Some example_dirty_index)")
  have vals: "is_header_write (last (trace sh'))" "trace sh' \<noteq> []"
    "trace example_writer = []"
    "map hdf5_page_offset (take (unat (3 :: u32)) (entries_of index')) = [3, 7, 9]"
    using run [symmetric]
    by (simp_all add: update_defs example_defs entries_of_def upt_rec)
  have hdr: "\<exists>ev\<in>set (drop (length (trace example_writer)) (trace sh')). is_header_write ev"
    using vals(1,2,3) last_in_set by fastforce
  from index_sorted_at_header_write [OF run hdr] hdr
  show ?thesis unfolding run using vals(4) by (simp add: example_defs)
qed


section \<open>Verification: close\<close>

lemma free_delayed_list_empty [simp]: "free_delayed_list q = []"
  by (induction q) simp_all


text \<open>
  C8. A successful \<open>H5F_vfd_swmr_close_or_flush\<close> with \<open>closing\<close> true writes an index
  with entry count 0 and no entries at \<open>writer_index_offset\<close>, then the header, then
  closes and unlinks the shadow file and closes its free-space manager; the tick has
  been incremented, the file descriptor is \<open>-1\<close>, and the deferred-free queue is empty
  whatever the age of its records was.
\<close>

theorem close_publishes_empty_index_and_drains:
  assumes run: "H5F_vfd_swmr_close_or_flush env shared g True = (None, sh', g')"
  shows "trace sh' = trace shared @
           [MdWriteIndex (writer_index_offset shared)
              (H5FD_MD_INDEX_MAGIC @ UINT64ENCODE (tick_num shared) @ UINT32ENCODE 0 @
               UINT32ENCODE (H5_checksum_metadata env
                 (H5FD_MD_INDEX_MAGIC @ UINT64ENCODE (tick_num shared) @ UINT32ENCODE 0))),
            MdWriteHeader H5FD_MD_HEADER_OFF (md_hdr_image env shared 0),
            MdClose, MdUnlink, MvClose] \<and>
         tick_num sh' = tick_num shared + 1 \<and>
         vfd_swmr_md_fd sh' = - 1 \<and>
         shadow_defrees sh' = [] \<and>
         g' = g"
proof -
  obtain r1 sh1 where i: "H5F__vfd_swmr_construct_write_md_idx env shared 0 None = (r1, sh1)"
    by (cases "H5F__vfd_swmr_construct_write_md_idx env shared 0 None")
  obtain r2 sh2 where h: "H5F__vfd_swmr_construct_write_md_hdr env sh1 0 = (r2, sh2)"
    by (cases "H5F__vfd_swmr_construct_write_md_hdr env sh1 0")
  from run i have r1: "r1 = None"
    by (cases r1) (auto simp: H5F_vfd_swmr_close_or_flush_def split: if_splits)
  from run i h r1 have r2: "r2 = None"
    by (cases r2) (auto simp: H5F_vfd_swmr_close_or_flush_def split: if_splits)
  from construct_write_md_idx_effect [OF i] r1
  have sh1: "sh1 = log_event (MdWriteIndex (writer_index_offset shared)
                  (md_idx_image env (tick_num shared) 0 [])) shared"
    by (simp add: entries_of_def)
  from construct_write_md_hdr_effect [OF h] r2
  have sh2: "sh2 = log_event (MdWriteHeader H5FD_MD_HEADER_OFF (md_hdr_image env sh1 0)) sh1"
    by simp
  have hi: "md_hdr_image env sh1 0 = md_hdr_image env shared 0"
    using sh1 by (simp add: log_event_def)
  from run i h r1 r2 have
    "sh' = (log_event MvClose (log_event MdUnlink
             ((log_event MdClose (sh2\<lparr>tick_num := tick_num sh2 + 1\<rparr>))
                \<lparr>vfd_swmr_md_fd := - 1\<rparr>)))\<lparr>shadow_defrees := []\<rparr>" "g' = g"
    by (auto simp: H5F_vfd_swmr_close_or_flush_def Let_def split: if_splits)
  then show ?thesis
    using sh1 sh2 hi by (simp add: log_event_def md_idx_image_def)
qed

theorem close_publishes_empty_index_and_drains_witness:
  "fst (H5F_vfd_swmr_close_or_flush example_env example_due_writer example_globals True) = None \<and>
   shadow_defrees example_due_writer \<noteq> [] \<and>
   shadow_defrees
     (fst (snd (H5F_vfd_swmr_close_or_flush example_env example_due_writer example_globals
                  True))) = [] \<and>
   tick_num
     (fst (snd (H5F_vfd_swmr_close_or_flush example_env example_due_writer example_globals
                  True))) = 7 \<and>
   drop 2
     (trace
       (fst (snd (H5F_vfd_swmr_close_or_flush example_env example_due_writer example_globals
                    True)))) = [MdClose, MdUnlink, MvClose]"
proof -
  obtain r sh' g' where
    run: "H5F_vfd_swmr_close_or_flush example_env example_due_writer example_globals True =
            (r, sh', g')"
    by (cases "H5F_vfd_swmr_close_or_flush example_env example_due_writer example_globals True")
  have r: "r = None"
    using run [symmetric]
    by (simp add: H5F_vfd_swmr_close_or_flush_def update_defs example_defs)
  from close_publishes_empty_index_and_drains [OF run [unfolded r]]
  show ?thesis unfolding run r by (simp add: example_defs)
qed

section \<open>Verification: reader end of tick\<close>

text \<open>
  C7. When the tick read from the header of the shadow file equals the reader's tick,
  \<open>H5F_vfd_swmr_reader_end_of_tick\<close> leaves the shared state of every file as it is: no
  call to the page buffer or to the metadata cache is made, and the index arrays and the
  tick are not changed. Its result and the globals are those of
  \<open>H5F_vfd_swmr_remove_entry_eot\<close> followed by \<open>H5F_vfd_swmr_insert_entry_eot\<close> for the
  file; when the allocation of the queue entry succeeds the call succeeds and the queue
  is the old one with the file's entry removed and inserted again.
\<close>

theorem reader_eot_same_tick:
  assumes f: "f_arg = Some f \<or>
              (f_arg = None \<and> eot_queue_g g \<noteq> [] \<and> vfd_swmr_file (hd (eot_queue_g g)) = f)"
    and sh: "files f = Some shared"
    and rd: "vfd_swmr shared" "\<not> vfd_swmr_writer shared"
    and same: "H5FD_vfd_swmr_get_tick env (trace shared) = Some (tick_num shared)"
  shows "H5F_vfd_swmr_reader_end_of_tick env files g f_arg =
           (fst (H5F_vfd_swmr_insert_entry_eot env f shared
                   (H5F_vfd_swmr_remove_entry_eot f g)),
            files,
            snd (H5F_vfd_swmr_insert_entry_eot env f shared
                   (H5F_vfd_swmr_remove_entry_eot f g))) \<and>
         (mem_alloc env (trace shared) \<longrightarrow>
            fst (H5F_vfd_swmr_insert_entry_eot env f shared
                   (H5F_vfd_swmr_remove_entry_eot f g)) = None \<and>
            eot_queue_g (snd (H5F_vfd_swmr_insert_entry_eot env f shared
                   (H5F_vfd_swmr_remove_entry_eot f g))) =
              rev (insert_from_tail
                     \<lparr>vfd_swmr_writer_eot = vfd_swmr_writer shared,
                      tick_num_eot = tick_num shared,
                      end_of_tick_eot = end_of_tick shared, vfd_swmr_file = f\<rparr>
                     (rev (remove_entry f (eot_queue_g g)))))"
proof -
  have res: "(case f_arg of Some f \<Rightarrow> Some f
              | None \<Rightarrow> (case eot_queue_g g of [] \<Rightarrow> None
                          | first # _ \<Rightarrow> Some (vfd_swmr_file first))) = Some f"
    using f by (auto split: list.splits)
  have upd: "files(f \<mapsto> shared) = files" using sh by (rule map_upd_triv)
  have main: "H5F_vfd_swmr_reader_end_of_tick env files g f_arg =
           (fst (H5F_vfd_swmr_insert_entry_eot env f shared
                   (H5F_vfd_swmr_remove_entry_eot f g)),
            files,
            snd (H5F_vfd_swmr_insert_entry_eot env f shared
                   (H5F_vfd_swmr_remove_entry_eot f g)))"
    unfolding H5F_vfd_swmr_reader_end_of_tick_def res
    using sh rd same upd by (simp add: case_prod_beta)
  have q: "mem_alloc env (trace shared) \<longrightarrow>
            fst (H5F_vfd_swmr_insert_entry_eot env f shared
                   (H5F_vfd_swmr_remove_entry_eot f g)) = None \<and>
            eot_queue_g (snd (H5F_vfd_swmr_insert_entry_eot env f shared
                   (H5F_vfd_swmr_remove_entry_eot f g))) =
              rev (insert_from_tail
                     \<lparr>vfd_swmr_writer_eot = vfd_swmr_writer shared,
                      tick_num_eot = tick_num shared,
                      end_of_tick_eot = end_of_tick shared, vfd_swmr_file = f\<rparr>
                     (rev (remove_entry f (eot_queue_g g))))"
    by (auto simp: H5F_vfd_swmr_insert_entry_eot_def H5F_vfd_swmr_remove_entry_eot_def
          set_up_globals_def Let_def split: list.splits)
  show ?thesis using main q by blast
qed

theorem reader_eot_same_tick_witness:
  "H5F_vfd_swmr_reader_end_of_tick example_env example_files example_globals (Some 2) =
     (None, example_files,
      example_globals\<lparr>eot_queue_g :=
        [example_eot_entry 50 1,
         \<lparr>vfd_swmr_writer_eot = False, tick_num_eot = 3,
          end_of_tick_eot = \<lparr>tv_sec = 100, tv_nsec = 0\<rparr>, vfd_swmr_file = 2\<rparr>,
         example_eot_entry 150 3]\<rparr>)"
proof -
  have h: "Some (2 :: nat) = Some 2 \<or>
              (Some (2 :: nat) = None \<and> eot_queue_g example_globals \<noteq> [] \<and>
               vfd_swmr_file (hd (eot_queue_g example_globals)) = 2)"
    "example_files 2 = Some example_reader"
    "vfd_swmr example_reader" "\<not> vfd_swmr_writer example_reader"
    "H5FD_vfd_swmr_get_tick example_env (trace example_reader) =
       Some (tick_num example_reader)"
    by (simp_all add: example_files_def example_reader_def example_env_def)
  from reader_eot_same_tick [where f_arg = "Some 2" and f = 2 and g = example_globals
      and files = example_files and shared = example_reader and env = example_env, OF h]
  show ?thesis
    by (simp add: H5F_vfd_swmr_insert_entry_eot_def H5F_vfd_swmr_remove_entry_eot_def
          set_up_globals_def example_env_def example_reader_def example_globals_def
          example_eot_entry_def timespeccmp_le_def)
qed


lemma unmatched_pages_Nil_old [simp]: "unmatched_pages [] ns = {}"
  by (simp add: unmatched_pages_def)

lemma unmatched_pages_Nil_new [simp]:
  "unmatched_pages os [] = set (map hdf5_page_offset os)"
  by (simp add: unmatched_pages_def)

lemma unmatched_pages_Cons_old:
  "unmatched_pages (ol # os) ns =
     (if \<exists>nw\<in>set ns. hdf5_page_offset nw = hdf5_page_offset ol \<and>
                     md_file_page_offset nw = md_file_page_offset ol
      then unmatched_pages os ns
      else insert (hdf5_page_offset ol) (unmatched_pages os ns))"
proof (cases "\<exists>nw\<in>set ns. hdf5_page_offset nw = hdf5_page_offset ol \<and>
                     md_file_page_offset nw = md_file_page_offset ol")
  case True
  then have eq: "{x \<in> set (ol # os).
          \<not> (\<exists>nw\<in>set ns. hdf5_page_offset nw = hdf5_page_offset x \<and>
                 md_file_page_offset nw = md_file_page_offset x)} =
        {x \<in> set os.
          \<not> (\<exists>nw\<in>set ns. hdf5_page_offset nw = hdf5_page_offset x \<and>
                 md_file_page_offset nw = md_file_page_offset x)}"
    by auto
  show ?thesis unfolding unmatched_pages_def eq by (simp only: if_P [OF True])
next
  case False
  then have eq: "{x \<in> set (ol # os).
          \<not> (\<exists>nw\<in>set ns. hdf5_page_offset nw = hdf5_page_offset x \<and>
                 md_file_page_offset nw = md_file_page_offset x)} =
        insert ol {x \<in> set os.
          \<not> (\<exists>nw\<in>set ns. hdf5_page_offset nw = hdf5_page_offset x \<and>
                 md_file_page_offset nw = md_file_page_offset x)}"
    by auto
  show ?thesis unfolding unmatched_pages_def eq by (simp only: if_not_P [OF False] image_insert)
qed

lemma unmatched_pages_Cons_new:
  assumes "\<forall>x\<in>set os. hdf5_page_offset x \<noteq> hdf5_page_offset nw"
  shows "unmatched_pages os (nw # ns) = unmatched_pages os ns"
proof -
  have "{x \<in> set os. \<not> (\<exists>n\<in>set (nw # ns). hdf5_page_offset n = hdf5_page_offset x \<and>
                     md_file_page_offset n = md_file_page_offset x)} =
        {x \<in> set os. \<not> (\<exists>n\<in>set ns. hdf5_page_offset n = hdf5_page_offset x \<and>
                     md_file_page_offset n = md_file_page_offset x)}"
    using assms by auto
  then show ?thesis unfolding unmatched_pages_def by (rule arg_cong)
qed

lemma changed_or_removed_unmatched:
  assumes d: "distinct (map hdf5_page_offset ns)"
  shows "changed_pages os ns \<union> removed_pages os ns = unmatched_pages os ns"
proof (rule set_eqI)
  fix p
  from d have inj: "inj_on hdf5_page_offset (set ns)" by (simp add: distinct_map)
  show "p \<in> changed_pages os ns \<union> removed_pages os ns \<longleftrightarrow> p \<in> unmatched_pages os ns"
  proof
    assume "p \<in> changed_pages os ns \<union> removed_pages os ns"
    then show "p \<in> unmatched_pages os ns"
    proof
      assume "p \<in> changed_pages os ns"
      then obtain ol nw where c: "ol \<in> set os" "nw \<in> set ns" "hdf5_page_offset ol = p"
        "hdf5_page_offset nw = p" "md_file_page_offset ol \<noteq> md_file_page_offset nw"
        unfolding changed_pages_def by blast
      have "\<not> (\<exists>n'\<in>set ns. hdf5_page_offset n' = hdf5_page_offset ol \<and>
                  md_file_page_offset n' = md_file_page_offset ol)"
      proof
        assume "\<exists>n'\<in>set ns. hdf5_page_offset n' = hdf5_page_offset ol \<and>
                  md_file_page_offset n' = md_file_page_offset ol"
        then obtain n' where n': "n' \<in> set ns" "hdf5_page_offset n' = hdf5_page_offset ol"
          "md_file_page_offset n' = md_file_page_offset ol" by blast
        from n'(2) c(3,4) have "hdf5_page_offset n' = hdf5_page_offset nw" by simp
        with inj_onD [OF inj] n'(1) c(2) have "n' = nw" by blast
        with n'(3) c(5) show False by simp
      qed
      with c(1) have "ol \<in> {ol \<in> set os.
          \<not> (\<exists>nw\<in>set ns. hdf5_page_offset nw = hdf5_page_offset ol \<and>
                 md_file_page_offset nw = md_file_page_offset ol)}" by simp
      then have "hdf5_page_offset ol \<in> unmatched_pages os ns"
        unfolding unmatched_pages_def by (rule imageI)
      with c(3) show ?thesis by simp
    next
      assume "p \<in> removed_pages os ns"
      then obtain ol where r: "ol \<in> set os" "hdf5_page_offset ol = p"
        "\<not> (\<exists>nw\<in>set ns. hdf5_page_offset nw = p)"
        unfolding removed_pages_def by blast
      then have "ol \<in> {ol \<in> set os.
          \<not> (\<exists>nw\<in>set ns. hdf5_page_offset nw = hdf5_page_offset ol \<and>
                 md_file_page_offset nw = md_file_page_offset ol)}" by simp
      then have "hdf5_page_offset ol \<in> unmatched_pages os ns"
        unfolding unmatched_pages_def by (rule imageI)
      with r(2) show ?thesis by simp
    qed
  next
    assume "p \<in> unmatched_pages os ns"
    then obtain ol where o: "ol \<in> set os" "hdf5_page_offset ol = p"
      "\<not> (\<exists>nw\<in>set ns. hdf5_page_offset nw = hdf5_page_offset ol \<and>
             md_file_page_offset nw = md_file_page_offset ol)"
      unfolding unmatched_pages_def by blast
    show "p \<in> changed_pages os ns \<union> removed_pages os ns"
    proof (cases "\<exists>nw\<in>set ns. hdf5_page_offset nw = p")
      case True
      then obtain nw where nw: "nw \<in> set ns" "hdf5_page_offset nw = p" by blast
      with o(2,3) have "md_file_page_offset ol \<noteq> md_file_page_offset nw" by metis
      with o(1,2) nw have "p \<in> changed_pages os ns" unfolding changed_pages_def by blast
      then show ?thesis by simp
    next
      case False
      with o(1,2) have "p \<in> removed_pages os ns" unfolding removed_pages_def by blast
      then show ?thesis by simp
    qed
  qed
qed

lemma drop_take_nth:
  assumes "i < n" "n \<le> length xs"
  shows "drop i (take n xs) = xs ! i # drop (Suc i) (take n xs)"
proof -
  have "i < length (take n xs)" using assms by simp
  then have "drop i (take n xs) = take n xs ! i # drop (Suc i) (take n xs)"
    by (rule Cons_nth_drop_Suc [symmetric])
  then show ?thesis using assms by simp
qed

lemma sorted_offsets_above:
  assumes s: "sorted_wrt (<) (map hdf5_page_offset (take n xs))" and i: "i < n" "n \<le> length xs"
  shows "\<forall>x\<in>set (drop (Suc i) (take n xs)). hdf5_page_offset (xs ! i) < hdf5_page_offset x"
proof -
  from s have "sorted_wrt (<) (drop i (map hdf5_page_offset (take n xs)))"
    by (rule sorted_wrt_drop)
  then have "sorted_wrt (<) (map hdf5_page_offset (drop i (take n xs)))"
    by (simp add: drop_map)
  then show ?thesis by (simp add: drop_take_nth [OF i])
qed

lemma sorted_diff_sanity:
  assumes so: "sorted_wrt (<) (map hdf5_page_offset (take ou old_idx))" and lo: "ou \<le> length old_idx"
    and sn: "sorted_wrt (<) (map hdf5_page_offset (take nu new_idx))" and ln: "nu \<le> length new_idx"
  shows "diff_sanity old_idx ou new_idx nu s"
proof -
  have a: "pos_i s = 0 \<or> pos_i s \<ge> ou \<or>
       hdf5_page_offset (old_idx ! (pos_i s - 1)) < hdf5_page_offset (old_idx ! pos_i s)"
  proof (cases "pos_i s = 0 \<or> pos_i s \<ge> ou")
    case False
    then have i: "pos_i s - 1 < pos_i s" "pos_i s < length (map hdf5_page_offset (take ou old_idx))"
      using lo by simp_all
    from False have "pos_i s - 1 < ou" "pos_i s < ou" by linarith+
    with sorted_wrt_nth_less [OF so i]
    show ?thesis using lo by simp
  qed auto
  have b: "pos_j s = 0 \<or> pos_j s \<ge> nu \<or>
       hdf5_page_offset (new_idx ! (pos_j s - 1)) < hdf5_page_offset (new_idx ! pos_j s)"
  proof (cases "pos_j s = 0 \<or> pos_j s \<ge> nu")
    case False
    then have j: "pos_j s - 1 < pos_j s" "pos_j s < length (map hdf5_page_offset (take nu new_idx))"
      using ln by simp_all
    from False have "pos_j s - 1 < nu" "pos_j s < nu" by linarith+
    with sorted_wrt_nth_less [OF sn j]
    show ?thesis using ln by simp
  qed auto
  show ?thesis using a b by (simp add: diff_sanity_def)
qed

lemma diff_step_correct:
  assumes so: "sorted_wrt (<) (map hdf5_page_offset (take ou old_idx))" and lo: "ou \<le> length old_idx"
    and sn: "sorted_wrt (<) (map hdf5_page_offset (take nu new_idx))" and ln: "nu \<le> length new_idx"
    and cap: "ou \<le> cap"
    and inv: "diff_inv ou nu s"
    and i: "pos_i s < ou" and j: "pos_j s < nu"
  shows "\<exists>s1 R. diff_step old_idx new_idx cap s = Inr s1 \<and> diff_inv ou nu s1 \<and>
           removed_page s1 = removed_page s @ R \<and>
           set R \<union> unmatched_pages (drop (pos_i s1) (take ou old_idx))
                     (drop (pos_j s1) (take nu new_idx)) =
             unmatched_pages (drop (pos_i s) (take ou old_idx))
               (drop (pos_j s) (take nu new_idx))"
proof -
  let ?o = "old_idx ! pos_i s" and ?n = "new_idx ! pos_j s"
  let ?os = "drop (Suc (pos_i s)) (take ou old_idx)"
  let ?ns = "drop (Suc (pos_j s)) (take nu new_idx)"
  have dO: "drop (pos_i s) (take ou old_idx) = ?o # ?os" using i lo by (rule drop_take_nth)
  have dN: "drop (pos_j s) (take nu new_idx) = ?n # ?ns" using j ln by (rule drop_take_nth)
  have aO: "\<forall>x\<in>set ?os. hdf5_page_offset ?o < hdf5_page_offset x"
    using so i lo by (rule sorted_offsets_above)
  have aN: "\<forall>y\<in>set ?ns. hdf5_page_offset ?n < hdf5_page_offset y"
    using sn j ln by (rule sorted_offsets_above)
  have room: "\<not> cap \<le> entries_removed s + entries_changed s"
    using inv i cap by (simp add: diff_inv_def)
  consider (changed) "hdf5_page_offset ?o = hdf5_page_offset ?n"
                     "md_file_page_offset ?o \<noteq> md_file_page_offset ?n"
    | (same) "hdf5_page_offset ?o = hdf5_page_offset ?n"
             "md_file_page_offset ?o = md_file_page_offset ?n"
    | (removed) "hdf5_page_offset ?o < hdf5_page_offset ?n"
    | (added) "hdf5_page_offset ?n < hdf5_page_offset ?o"
    by (metis linorder_neqE)
  then show ?thesis
  proof cases
    case changed
    let ?s1 = "s\<lparr>removed_page := removed_page s @ [hdf5_page_offset ?n],
                  entries_changed := entries_changed s + 1,
                  pos_i := pos_i s + 1, pos_j := pos_j s + 1\<rparr>"
    have st: "diff_step old_idx new_idx cap s = Inr ?s1"
      using changed room by (simp add: diff_step_def)
    have nm: "\<not> (\<exists>nw\<in>set (?n # ?ns). hdf5_page_offset nw = hdf5_page_offset ?o \<and>
                 md_file_page_offset nw = md_file_page_offset ?o)"
      using changed aN by auto
    have sk: "\<forall>x\<in>set ?os. hdf5_page_offset x \<noteq> hdf5_page_offset ?n"
      using changed aO by auto
    have "unmatched_pages (?o # ?os) (?n # ?ns) =
          insert (hdf5_page_offset ?o) (unmatched_pages ?os (?n # ?ns))"
      by (simp only: unmatched_pages_Cons_old if_not_P [OF nm])
    also have "unmatched_pages ?os (?n # ?ns) = unmatched_pages ?os ?ns"
      using sk by (rule unmatched_pages_Cons_new)
    finally have "set [hdf5_page_offset ?n] \<union> unmatched_pages ?os ?ns =
        unmatched_pages (?o # ?os) (?n # ?ns)"
      using changed(1) by simp
    moreover have "diff_inv ou nu ?s1" using inv i j by (simp add: diff_inv_def)
    ultimately have "diff_step old_idx new_idx cap s = Inr ?s1 \<and> diff_inv ou nu ?s1 \<and>
           removed_page ?s1 = removed_page s @ [hdf5_page_offset ?n] \<and>
           set [hdf5_page_offset ?n] \<union> unmatched_pages (drop (pos_i ?s1) (take ou old_idx))
                     (drop (pos_j ?s1) (take nu new_idx)) =
             unmatched_pages (drop (pos_i s) (take ou old_idx))
               (drop (pos_j s) (take nu new_idx))"
      using st dO dN by simp
    then show ?thesis by blast
  next
    case same
    let ?s1 = "s\<lparr>pos_i := pos_i s + 1, pos_j := pos_j s + 1\<rparr>"
    have st: "diff_step old_idx new_idx cap s = Inr ?s1"
      using same by (simp add: diff_step_def)
    have m: "\<exists>nw\<in>set (?n # ?ns). hdf5_page_offset nw = hdf5_page_offset ?o \<and>
                 md_file_page_offset nw = md_file_page_offset ?o"
      using same by simp
    have sk: "\<forall>x\<in>set ?os. hdf5_page_offset x \<noteq> hdf5_page_offset ?n"
      using same aO by auto
    have "unmatched_pages (?o # ?os) (?n # ?ns) = unmatched_pages ?os (?n # ?ns)"
      by (simp only: unmatched_pages_Cons_old if_P [OF m])
    also have "unmatched_pages ?os (?n # ?ns) = unmatched_pages ?os ?ns"
      using sk by (rule unmatched_pages_Cons_new)
    finally have "set [] \<union> unmatched_pages ?os ?ns =
        unmatched_pages (?o # ?os) (?n # ?ns)"
      by simp
    moreover have "diff_inv ou nu ?s1" using inv i j by (simp add: diff_inv_def)
    ultimately have "diff_step old_idx new_idx cap s = Inr ?s1 \<and> diff_inv ou nu ?s1 \<and>
           removed_page ?s1 = removed_page s @ [] \<and>
           set [] \<union> unmatched_pages (drop (pos_i ?s1) (take ou old_idx))
                     (drop (pos_j ?s1) (take nu new_idx)) =
             unmatched_pages (drop (pos_i s) (take ou old_idx))
               (drop (pos_j s) (take nu new_idx))"
      using st dO dN by simp
    then show ?thesis by blast
  next
    case removed
    let ?s1 = "s\<lparr>removed_page := removed_page s @ [hdf5_page_offset ?o],
                  entries_removed := entries_removed s + 1,
                  pos_i := pos_i s + 1\<rparr>"
    have st: "diff_step old_idx new_idx cap s = Inr ?s1"
      using removed room by (simp add: diff_step_def)
    have nm: "\<not> (\<exists>nw\<in>set (?n # ?ns). hdf5_page_offset nw = hdf5_page_offset ?o \<and>
                 md_file_page_offset nw = md_file_page_offset ?o)"
      using removed aN by fastforce
    have "unmatched_pages (?o # ?os) (?n # ?ns) =
          insert (hdf5_page_offset ?o) (unmatched_pages ?os (?n # ?ns))"
      by (simp only: unmatched_pages_Cons_old if_not_P [OF nm])
    then have "set [hdf5_page_offset ?o] \<union> unmatched_pages ?os (?n # ?ns) =
        unmatched_pages (?o # ?os) (?n # ?ns)"
      by simp
    moreover have "diff_inv ou nu ?s1" using inv i j by (simp add: diff_inv_def)
    ultimately have "diff_step old_idx new_idx cap s = Inr ?s1 \<and> diff_inv ou nu ?s1 \<and>
           removed_page ?s1 = removed_page s @ [hdf5_page_offset ?o] \<and>
           set [hdf5_page_offset ?o] \<union> unmatched_pages (drop (pos_i ?s1) (take ou old_idx))
                     (drop (pos_j ?s1) (take nu new_idx)) =
             unmatched_pages (drop (pos_i s) (take ou old_idx))
               (drop (pos_j s) (take nu new_idx))"
      using st dO dN by simp
    then show ?thesis by blast
  next
    case added
    let ?s1 = "s\<lparr>entries_added := entries_added s + 1, pos_j := pos_j s + 1\<rparr>"
    have st: "diff_step old_idx new_idx cap s = Inr ?s1"
      using added by (auto simp: diff_step_def)
    have sk: "\<forall>x\<in>set (?o # ?os). hdf5_page_offset x \<noteq> hdf5_page_offset ?n"
      using added aO by fastforce
    have "unmatched_pages (?o # ?os) (?n # ?ns) = unmatched_pages (?o # ?os) ?ns"
      using sk by (rule unmatched_pages_Cons_new)
    then have "set [] \<union> unmatched_pages (?o # ?os) ?ns =
        unmatched_pages (?o # ?os) (?n # ?ns)"
      by simp
    moreover have "diff_inv ou nu ?s1" using inv i j by (simp add: diff_inv_def)
    ultimately have "diff_step old_idx new_idx cap s = Inr ?s1 \<and> diff_inv ou nu ?s1 \<and>
           removed_page ?s1 = removed_page s @ [] \<and>
           set [] \<union> unmatched_pages (drop (pos_i ?s1) (take ou old_idx))
                     (drop (pos_j ?s1) (take nu new_idx)) =
             unmatched_pages (drop (pos_i s) (take ou old_idx))
               (drop (pos_j s) (take nu new_idx))"
      using st dO dN by simp
    then show ?thesis by blast
  qed
qed

lemma diff_merge_correct:
  assumes so: "sorted_wrt (<) (map hdf5_page_offset (take ou old_idx))" and lo: "ou \<le> length old_idx"
    and sn: "sorted_wrt (<) (map hdf5_page_offset (take nu new_idx))" and ln: "nu \<le> length new_idx"
    and cap: "ou \<le> cap"
    and inv: "diff_inv ou nu s"
  shows "\<exists>s' R. diff_merge old_idx ou new_idx nu cap s = Inr s' \<and> diff_inv ou nu s' \<and>
           (pos_i s' = ou \<or> pos_j s' = nu) \<and>
           removed_page s' = removed_page s @ R \<and>
           set R \<union> unmatched_pages (drop (pos_i s') (take ou old_idx))
                     (drop (pos_j s') (take nu new_idx)) =
             unmatched_pages (drop (pos_i s) (take ou old_idx))
               (drop (pos_j s) (take nu new_idx))"
  using assms
proof (induction old_idx ou new_idx nu cap s rule: diff_merge.induct)
  case (1 old_idx ou new_idx nu cap s)
  show ?case
  proof (cases "pos_i s < ou \<and> pos_j s < nu")
    case False
    then have "diff_merge old_idx ou new_idx nu cap s = Inr s"
      by (subst diff_merge.simps) (use False in auto)
    moreover from False "1.prems"(6) have "pos_i s = ou \<or> pos_j s = nu"
      by (auto simp: diff_inv_def)
    ultimately have "diff_merge old_idx ou new_idx nu cap s = Inr s \<and> diff_inv ou nu s \<and>
           (pos_i s = ou \<or> pos_j s = nu) \<and>
           removed_page s = removed_page s @ [] \<and>
           set [] \<union> unmatched_pages (drop (pos_i s) (take ou old_idx))
                     (drop (pos_j s) (take nu new_idx)) =
             unmatched_pages (drop (pos_i s) (take ou old_idx))
               (drop (pos_j s) (take nu new_idx))"
      using "1.prems"(6) by simp
    then show ?thesis by blast
  next
    case True
    then have i: "pos_i s < ou" and j: "pos_j s < nu" by simp_all
    from diff_step_correct [OF "1.prems"(1-6) i j] obtain s1 R1 where
      st: "diff_step old_idx new_idx cap s = Inr s1" "diff_inv ou nu s1"
          "removed_page s1 = removed_page s @ R1"
          "set R1 \<union> unmatched_pages (drop (pos_i s1) (take ou old_idx))
                     (drop (pos_j s1) (take nu new_idx)) =
             unmatched_pages (drop (pos_i s) (take ou old_idx))
               (drop (pos_j s) (take nu new_idx))"
      by blast
    have san: "diff_sanity old_idx ou new_idx nu s1"
      using "1.prems"(1,2,3,4) by (rule sorted_diff_sanity)
    then have san': "\<not> \<not> diff_sanity old_idx ou new_idx nu s1" by simp
    from "1.IH" [OF True st(1) san' "1.prems"(1-5) st(2)] obtain s' R2 where
      ih: "diff_merge old_idx ou new_idx nu cap s1 = Inr s'" "diff_inv ou nu s'"
          "pos_i s' = ou \<or> pos_j s' = nu"
          "removed_page s' = removed_page s1 @ R2"
          "set R2 \<union> unmatched_pages (drop (pos_i s') (take ou old_idx))
                     (drop (pos_j s') (take nu new_idx)) =
             unmatched_pages (drop (pos_i s1) (take ou old_idx))
               (drop (pos_j s1) (take nu new_idx))"
      by blast
    have run: "diff_merge old_idx ou new_idx nu cap s = Inr s'"
      by (subst diff_merge.simps) (use True st(1) san ih(1) in simp)
    have rp: "removed_page s' = removed_page s @ (R1 @ R2)"
      using ih(4) st(3) by simp
    have "set (R1 @ R2) \<union> unmatched_pages (drop (pos_i s') (take ou old_idx))
                     (drop (pos_j s') (take nu new_idx)) =
          set R1 \<union> (set R2 \<union> unmatched_pages (drop (pos_i s') (take ou old_idx))
                     (drop (pos_j s') (take nu new_idx)))"
      by auto
    also have "\<dots> = unmatched_pages (drop (pos_i s) (take ou old_idx))
               (drop (pos_j s) (take nu new_idx))"
      by (simp only: ih(5) st(4))
    finally show ?thesis using run ih(2,3) rp by blast
  qed
qed

lemma diff_left_overs_correct:
  assumes lo: "ou \<le> length old_idx" and cap: "ou \<le> cap" and inv: "diff_inv ou nu s"
  shows "\<exists>s'. diff_left_overs old_idx ou cap s = Inr s' \<and> diff_inv ou nu s' \<and>
           removed_page s' =
             removed_page s @ map hdf5_page_offset (drop (pos_i s) (take ou old_idx))"
  using assms
proof (induction old_idx ou cap s rule: diff_left_overs.induct)
  case (1 old_idx ou cap s)
  show ?case
  proof (cases "pos_i s < ou")
    case False
    then have "diff_left_overs old_idx ou cap s = Inr s"
      by (subst diff_left_overs.simps) (use False in auto)
    moreover from False "1.prems" have "drop (pos_i s) (take ou old_idx) = []"
      by (simp add: diff_inv_def)
    ultimately show ?thesis using "1.prems"(3) by simp
  next
    case True
    let ?s1 = "s\<lparr>removed_page := removed_page s @ [hdf5_page_offset (old_idx ! pos_i s)],
                  entries_removed := entries_removed s + 1,
                  pos_i := pos_i s + 1\<rparr>"
    have room: "\<not> cap \<le> entries_removed s + entries_changed s"
      using "1.prems" True by (simp add: diff_inv_def)
    have inv1: "diff_inv ou nu ?s1" using "1.prems"(3) True by (simp add: diff_inv_def)
    from "1.IH" [OF True room "1.prems"(1,2) inv1] obtain s' where
      ih: "diff_left_overs old_idx ou cap ?s1 = Inr s'" "diff_inv ou nu s'"
          "removed_page s' =
             removed_page ?s1 @ map hdf5_page_offset (drop (pos_i ?s1) (take ou old_idx))"
      by blast
    have run: "diff_left_overs old_idx ou cap s = Inr s'"
      by (subst diff_left_overs.simps) (use True room ih(1) in simp)
    have "drop (pos_i s) (take ou old_idx) =
            old_idx ! pos_i s # drop (Suc (pos_i s)) (take ou old_idx)"
      using True "1.prems"(1) by (rule drop_take_nth)
    then have "removed_page s' =
             removed_page s @ map hdf5_page_offset (drop (pos_i s) (take ou old_idx))"
      using ih(3) by simp
    with run ih(2) show ?thesis by blast
  qed
qed

lemma reader_diff_correct:
  assumes so: "sorted_wrt (<) (map hdf5_page_offset (take (unat ou) (entries_of old_mdf)))"
    and lo: "unat ou \<le> length (entries_of old_mdf)"
    and sn: "sorted_wrt (<) (map hdf5_page_offset (take (unat nu) (entries_of new_mdf)))"
    and ln: "unat nu \<le> length (entries_of new_mdf)"
  shows "\<exists>d. reader_diff old_mdf ou new_mdf nu = Inr d \<and>
           entries_removed d + entries_changed d = length (removed_page d) \<and>
           set (removed_page d) =
             changed_pages (take (unat ou) (entries_of old_mdf))
               (take (unat nu) (entries_of new_mdf)) \<union>
             removed_pages (take (unat ou) (entries_of old_mdf))
               (take (unat nu) (entries_of new_mdf))"
proof -
  let ?old = "entries_of old_mdf" and ?new = "entries_of new_mdf"
  let ?cap = "max (unat ou) (unat nu)"
  let ?s0 = "\<lparr>pos_i = 0, pos_j = 0, entries_added = 0, entries_removed = 0,
              entries_changed = 0, removed_page = []\<rparr>"
  have nn: "\<not> ((ou \<noteq> 0 \<and> old_mdf = None) \<or> (nu \<noteq> 0 \<and> new_mdf = None))"
  proof -
    have "old_mdf = None \<Longrightarrow> ou = 0" using lo by (simp add: entries_of_def unat_eq_zero)
    moreover have "new_mdf = None \<Longrightarrow> nu = 0" using ln by (simp add: entries_of_def unat_eq_zero)
    ultimately show ?thesis by blast
  qed
  have cap: "unat ou \<le> ?cap" by simp
  have inv0: "diff_inv (unat ou) (unat nu) ?s0" by (simp add: diff_inv_def)
  from diff_merge_correct [OF so lo sn ln cap inv0] obtain s1 R where
    m: "diff_merge ?old (unat ou) ?new (unat nu) ?cap ?s0 = Inr s1"
       "diff_inv (unat ou) (unat nu) s1"
       "pos_i s1 = unat ou \<or> pos_j s1 = unat nu"
       "removed_page s1 = R"
       "set R \<union> unmatched_pages (drop (pos_i s1) (take (unat ou) ?old))
                     (drop (pos_j s1) (take (unat nu) ?new)) =
             unmatched_pages (take (unat ou) ?old) (take (unat nu) ?new)"
    by auto
  let ?s2 = "s1\<lparr>entries_added := entries_added s1 + (unat nu - pos_j s1)\<rparr>"
  have inv2: "diff_inv (unat ou) (unat nu) ?s2" using m(2) by (simp add: diff_inv_def)
  from diff_left_overs_correct [OF lo cap inv2] obtain d where
    l: "diff_left_overs ?old (unat ou) ?cap ?s2 = Inr d" "diff_inv (unat ou) (unat nu) d"
       "removed_page d = removed_page ?s2 @
          map hdf5_page_offset (drop (pos_i ?s2) (take (unat ou) ?old))"
    by blast
  have run: "reader_diff old_mdf ou new_mdf nu = Inr d"
    using nn lo ln m(1) l(1)
    by (simp add: reader_diff_def Let_def entries_of_def not_less)
  have rest: "unmatched_pages (drop (pos_i s1) (take (unat ou) ?old))
                     (drop (pos_j s1) (take (unat nu) ?new)) =
          set (map hdf5_page_offset (drop (pos_i s1) (take (unat ou) ?old)))"
    using m(3)
  proof
    assume "pos_i s1 = unat ou"
    then show ?thesis by simp
  next
    assume "pos_j s1 = unat nu"
    then show ?thesis by simp
  qed
  have "set (removed_page d) =
          set R \<union> set (map hdf5_page_offset (drop (pos_i s1) (take (unat ou) ?old)))"
    using l(3) m(4) by simp
  also have "\<dots> = unmatched_pages (take (unat ou) ?old) (take (unat nu) ?new)"
    using m(5) rest by simp
  also have "\<dots> = changed_pages (take (unat ou) ?old) (take (unat nu) ?new) \<union>
                   removed_pages (take (unat ou) ?old) (take (unat nu) ?new)"
  proof -
    from sn have "distinct (map hdf5_page_offset (take (unat nu) ?new))"
      by (simp add: strict_sorted_iff)
    then show ?thesis by (rule changed_or_removed_unmatched [symmetric])
  qed
  finally show ?thesis using run l(2) by (auto simp: diff_inv_def)
qed

lemma evict_from_page_buffer_effect:
  "evict_from_page_buffer env sh pages = (None, sh') \<Longrightarrow>
   sh' = sh\<lparr>trace := trace sh @ map (\<lambda>p. PbRemoveEntry (p * pb_page_size sh)) pages\<rparr>"
proof (induction pages arbitrary: sh)
  case Nil
  then show ?case by simp
next
  case (Cons p ps)
  let ?sh1 = "log_event (PbRemoveEntry (p * pb_page_size sh)) sh"
  from Cons.prems have "evict_from_page_buffer env ?sh1 ps = (None, sh')"
    by (simp add: Let_def split: if_splits)
  from Cons.IH [OF this] show ?case by (simp add: log_event_def)
qed

lemma evict_from_cache_effect:
  "evict_from_cache env sh t pages = (None, sh') \<Longrightarrow>
   sh' = sh\<lparr>trace := trace sh @ map (\<lambda>p. CacheEvictOrRefresh p t) pages\<rparr>"
proof (induction pages arbitrary: sh)
  case Nil
  then show ?case by simp
next
  case (Cons p ps)
  let ?sh1 = "log_event (CacheEvictOrRefresh p t) sh"
  from Cons.prems have "evict_from_cache env ?sh1 t ps = (None, sh')"
    by (simp split: if_splits)
  from Cons.IH [OF this] show ?case by (simp add: log_event_def)
qed

lemma create_index_effect:
  "H5F__vfd_swmr_writer__create_index env sh = (None, sh') \<Longrightarrow>
   old_mdf_idx sh' = old_mdf_idx sh \<and>
   old_mdf_idx_entries_used sh' = old_mdf_idx_entries_used sh \<and>
   trace sh' = trace sh \<and> pb_page_size sh' = pb_page_size sh"
  by (auto simp: H5F__vfd_swmr_writer__create_index_def Let_def split: if_splits)

lemma load_new_index_effect:
  assumes "load_new_index env shared = (None, sh')"
  shows "old_mdf_idx sh' = mdf_idx shared \<and>
         old_mdf_idx_entries_used sh' = mdf_idx_entries_used shared \<and>
         trace sh' = trace shared \<and> pb_page_size sh' = pb_page_size shared"
proof -
  let ?sh1 = "swap_indexes shared"
  obtain r2 sh2 where c: "(if mdf_idx ?sh1 = None
      then H5F__vfd_swmr_writer__create_index env ?sh1 else (None, ?sh1)) = (r2, sh2)"
    by (cases "if mdf_idx ?sh1 = None
      then H5F__vfd_swmr_writer__create_index env ?sh1 else (None, ?sh1)")
  from assms c have r2: "r2 = None"
    by (cases r2) (simp_all add: load_new_index_def Let_def)
  have k: "old_mdf_idx sh2 = mdf_idx shared \<and>
         old_mdf_idx_entries_used sh2 = mdf_idx_entries_used shared \<and>
         trace sh2 = trace shared \<and> pb_page_size sh2 = pb_page_size shared"
  proof (cases "mdf_idx ?sh1 = None")
    case True
    with c r2 have "H5F__vfd_swmr_writer__create_index env ?sh1 = (None, sh2)" by simp
    from create_index_effect [OF this] show ?thesis by (simp add: swap_indexes_def)
  next
    case False
    with c have "sh2 = ?sh1" by simp
    then show ?thesis by (simp add: swap_indexes_def)
  qed
  from assms c r2 obtain used arr1 where "sh' = sh2\<lparr>mdf_idx := Some arr1,
                                        mdf_idx_entries_used := used\<rparr>"
    by (auto simp: load_new_index_def Let_def split: option.splits if_splits)
  with k show ?thesis by simp
qed

lemma reader_diff_bounds:
  assumes "reader_diff old_mdf ou new_mdf nu = Inr d"
  shows "unat ou \<le> length (entries_of old_mdf) \<and> unat nu \<le> length (entries_of new_mdf)"
proof -
  have "\<not> (length (entries_of old_mdf) < unat ou \<or> length (entries_of new_mdf) < unat nu)"
    using assms by (auto simp: reader_diff_def entries_of_def Let_def split: if_splits)
  then show ?thesis by simp
qed

lemma evict_stale_pages_effect:
  assumes run: "evict_stale_pages env sh t = (None, sh')"
    and so: "sorted_wrt (<) (map hdf5_page_offset
               (take (unat (old_mdf_idx_entries_used sh)) (entries_of (old_mdf_idx sh))))"
    and sn: "sorted_wrt (<) (map hdf5_page_offset (used_entries sh))"
  shows "\<exists>pages.
           sh' = sh\<lparr>trace := trace sh @
                   map (\<lambda>p. PbRemoveEntry (p * pb_page_size sh)) pages @
                   map (\<lambda>p. CacheEvictOrRefresh p t) pages\<rparr> \<and>
           set pages =
             changed_pages
               (take (unat (old_mdf_idx_entries_used sh)) (entries_of (old_mdf_idx sh)))
               (used_entries sh) \<union>
             removed_pages
               (take (unat (old_mdf_idx_entries_used sh)) (entries_of (old_mdf_idx sh)))
               (used_entries sh)"
proof -
  from run obtain d where
    d: "reader_diff (old_mdf_idx sh) (old_mdf_idx_entries_used sh) (mdf_idx sh)
          (mdf_idx_entries_used sh) = Inr d"
    by (auto simp: evict_stale_pages_def split: if_splits sum.splits)
  note b = reader_diff_bounds [OF d]
  from reader_diff_correct [OF so b [THEN conjunct1] sn [unfolded used_entries_def]
         b [THEN conjunct2]] d
  have p: "entries_removed d + entries_changed d = length (removed_page d)"
    "set (removed_page d) =
             changed_pages
               (take (unat (old_mdf_idx_entries_used sh)) (entries_of (old_mdf_idx sh)))
               (used_entries sh) \<union>
             removed_pages
               (take (unat (old_mdf_idx_entries_used sh)) (entries_of (old_mdf_idx sh)))
               (used_entries sh)"
    by (auto simp: used_entries_def)
  let ?pages = "removed_page d"
  obtain r1 sh1 where e1: "evict_from_page_buffer env sh ?pages = (r1, sh1)"
    by (cases "evict_from_page_buffer env sh ?pages")
  from run d p(1) e1 have r1: "r1 = None"
    by (cases r1) (auto simp: evict_stale_pages_def Let_def split: if_splits)
  from run d p(1) e1 r1 have e2: "evict_from_cache env sh1 t ?pages = (None, sh')"
    by (auto simp: evict_stale_pages_def Let_def split: if_splits)
  from evict_from_page_buffer_effect [OF e1 [unfolded r1]]
       evict_from_cache_effect [OF e2]
  have "sh' = sh\<lparr>trace := trace sh @
                   map (\<lambda>p. PbRemoveEntry (p * pb_page_size sh)) ?pages @
                   map (\<lambda>p. CacheEvictOrRefresh p t) ?pages\<rparr>"
    by simp
  with p(2) show ?thesis by blast
qed

lemma update_end_of_tick_keep:
  assumes "H5F__vfd_swmr_update_end_of_tick_and_tick_num env sh g False = (None, sh', g')"
  shows "\<exists>eot. sh' = sh\<lparr>end_of_tick := eot\<rparr>"
  using assms
  by (auto simp: H5F__vfd_swmr_update_end_of_tick_and_tick_num_def Let_def
           split: option.splits if_splits)

lemma reader_new_tick_effect:
  assumes run: "reader_new_tick env shared g t = (None, sh', g')"
    and so: "sorted_wrt (<) (map hdf5_page_offset (used_entries shared))"
    and sn: "sorted_wrt (<) (map hdf5_page_offset (used_entries sh'))"
  shows "\<exists>pages.
           trace sh' = trace shared @
             map (\<lambda>p. PbRemoveEntry (p * pb_page_size shared)) pages @
             map (\<lambda>p. CacheEvictOrRefresh p t) pages \<and>
           set pages = changed_pages (used_entries shared) (used_entries sh') \<union>
                       removed_pages (used_entries shared) (used_entries sh') \<and>
           tick_num sh' = t \<and>
           old_mdf_idx sh' = mdf_idx shared \<and>
           old_mdf_idx_entries_used sh' = mdf_idx_entries_used shared"
proof -
  obtain r1 sh1 where l: "load_new_index env shared = (r1, sh1)"
    by (cases "load_new_index env shared")
  from run l have r1: "r1 = None" by (cases r1) (simp_all add: reader_new_tick_def)
  obtain r2 sh2 where e: "evict_stale_pages env sh1 t = (r2, sh2)"
    by (cases "evict_stale_pages env sh1 t")
  from run l r1 e have r2: "r2 = None" by (cases r2) (simp_all add: reader_new_tick_def)
  from run l r1 e r2 have
    u: "H5F__vfd_swmr_update_end_of_tick_and_tick_num env (sh2\<lparr>tick_num := t\<rparr>) g False =
          (None, sh', g')"
    by (simp add: reader_new_tick_def)
  from update_end_of_tick_keep [OF u] obtain eot where
    sh': "sh' = sh2\<lparr>tick_num := t, end_of_tick := eot\<rparr>" by auto
  note k = load_new_index_effect [OF l [unfolded r1]]
  have t2: "\<exists>tr. sh2 = sh1\<lparr>trace := tr\<rparr>"
  proof -
    from e r2 obtain d where
      d: "reader_diff (old_mdf_idx sh1) (old_mdf_idx_entries_used sh1) (mdf_idx sh1)
          (mdf_idx_entries_used sh1) = Inr d"
      by (auto simp: evict_stale_pages_def split: if_splits sum.splits)
    let ?pages = "take (entries_removed d + entries_changed d) (removed_page d)"
    obtain q1 s1 where e1: "evict_from_page_buffer env sh1 ?pages = (q1, s1)"
      by (cases "evict_from_page_buffer env sh1 ?pages")
    from e r2 d e1 have q1: "q1 = None"
      by (cases q1) (auto simp: evict_stale_pages_def Let_def split: if_splits)
    from e r2 d e1 q1 have e2: "evict_from_cache env s1 t ?pages = (None, sh2)"
      by (auto simp: evict_stale_pages_def Let_def split: if_splits)
    from evict_from_page_buffer_effect [OF e1 [unfolded q1]]
         evict_from_cache_effect [OF e2]
    have "sh2 = sh1\<lparr>trace := trace sh1 @
            map (\<lambda>p. PbRemoveEntry (p * pb_page_size sh1)) ?pages @
            map (\<lambda>p. CacheEvictOrRefresh p t) ?pages\<rparr>"
      by simp
    then show ?thesis by (rule exI)
  qed
  then obtain tr where sh2: "sh2 = sh1\<lparr>trace := tr\<rparr>" by blast
  have ue: "used_entries sh' = used_entries sh1"
    using sh' sh2 by (simp add: used_entries_def)
  have so1: "sorted_wrt (<) (map hdf5_page_offset
               (take (unat (old_mdf_idx_entries_used sh1)) (entries_of (old_mdf_idx sh1))))"
    using so k by (simp add: used_entries_def)
  have sn1: "sorted_wrt (<) (map hdf5_page_offset (used_entries sh1))"
    using sn ue by simp
  from evict_stale_pages_effect [OF e [unfolded r2] so1 sn1] obtain pages where
    p: "sh2 = sh1\<lparr>trace := trace sh1 @
                   map (\<lambda>p. PbRemoveEntry (p * pb_page_size sh1)) pages @
                   map (\<lambda>p. CacheEvictOrRefresh p t) pages\<rparr>"
       "set pages =
             changed_pages
               (take (unat (old_mdf_idx_entries_used sh1)) (entries_of (old_mdf_idx sh1)))
               (used_entries sh1) \<union>
             removed_pages
               (take (unat (old_mdf_idx_entries_used sh1)) (entries_of (old_mdf_idx sh1)))
               (used_entries sh1)"
    by blast
  have "trace sh' = trace shared @
             map (\<lambda>p. PbRemoveEntry (p * pb_page_size shared)) pages @
             map (\<lambda>p. CacheEvictOrRefresh p t) pages"
    by (subst sh', subst p(1)) (simp add: k)
  moreover have "set pages = changed_pages (used_entries shared) (used_entries sh') \<union>
                       removed_pages (used_entries shared) (used_entries sh')"
    using p(2) k ue by (simp add: used_entries_def)
  moreover have "tick_num sh' = t" using sh' by simp
  moreover have "old_mdf_idx sh' = mdf_idx shared \<and>
           old_mdf_idx_entries_used sh' = mdf_idx_entries_used shared"
    using sh' sh2 k by simp
  ultimately show ?thesis by blast
qed


text \<open>
  C6. In a successful reader end of tick that reads a tick different from its own, with
  the entries in use of the old index and of the new index each strictly ascending by
  \<open>hdf5_page_offset\<close>, the calls made are: for each page of a list, in order, the
  eviction of the page from the page buffer (at the page's address), and then, for each
  page of the same list, the eviction or refresh of the metadata cache entries of the
  page. The pages of the list are exactly the changed pages (in both indexes, at
  different places of the shadow file) and the removed pages (in the old index only);
  so a page only in the new index, or in neither, is not evicted.
\<close>

theorem reader_evicts_changed_and_removed:
  assumes run: "H5F_vfd_swmr_reader_end_of_tick env files g f_arg = (None, files', g')"
    and f: "f_arg = Some f \<or>
            (f_arg = None \<and> eot_queue_g g \<noteq> [] \<and> vfd_swmr_file (hd (eot_queue_g g)) = f)"
    and sh: "files f = Some shared" "files' f = Some sh'"
    and tick: "H5FD_vfd_swmr_get_tick env (trace shared) = Some tmp_tick_num"
              "tmp_tick_num \<noteq> tick_num shared"
    and so: "sorted_wrt (<) (map hdf5_page_offset (used_entries shared))"
    and sn: "sorted_wrt (<) (map hdf5_page_offset (used_entries sh'))"
  shows "\<exists>pages.
           trace sh' = trace shared @
             map (\<lambda>p. PbRemoveEntry (p * pb_page_size shared)) pages @
             map (\<lambda>p. CacheEvictOrRefresh p tmp_tick_num) pages \<and>
           set pages = changed_pages (used_entries shared) (used_entries sh') \<union>
                       removed_pages (used_entries shared) (used_entries sh') \<and>
           tick_num sh' = tmp_tick_num \<and>
           old_mdf_idx sh' = mdf_idx shared \<and>
           old_mdf_idx_entries_used sh' = mdf_idx_entries_used shared"
proof -
  have res: "(case f_arg of Some f \<Rightarrow> Some f
              | None \<Rightarrow> (case eot_queue_g g of [] \<Rightarrow> None
                          | first # _ \<Rightarrow> Some (vfd_swmr_file first))) = Some f"
    using f by (auto split: list.splits)
  obtain r1 sh1 g1 where n: "reader_new_tick env shared g tmp_tick_num = (r1, sh1, g1)"
    by (cases "reader_new_tick env shared g tmp_tick_num")
  from run have r1: "r1 = None"
    unfolding H5F_vfd_swmr_reader_end_of_tick_def res
    using sh(1) tick n by (cases r1) (auto split: if_splits prod.splits)
  from run have "files' = files(f \<mapsto> sh1)"
    unfolding H5F_vfd_swmr_reader_end_of_tick_def res
    using sh(1) tick n r1 by (auto split: if_splits prod.splits)
  with sh(2) have "sh1 = sh'" by simp
  with n r1 have "reader_new_tick env shared g tmp_tick_num = (None, sh', g1)" by simp
  from reader_new_tick_effect [OF this so sn] show ?thesis .
qed

theorem reader_evicts_changed_and_removed_witness:
  "fst (H5F_vfd_swmr_reader_end_of_tick example_new_tick_env example_files example_globals
          (Some 2)) = None \<and>
   map hdf5_page_offset (used_entries example_reader) = [3, 5, 8] \<and>
   map hdf5_page_offset
     (used_entries
        (the (fst (snd (H5F_vfd_swmr_reader_end_of_tick example_new_tick_env example_files
                          example_globals (Some 2))) 2))) = [3, 8, 9] \<and>
   trace (the (fst (snd (H5F_vfd_swmr_reader_end_of_tick example_new_tick_env example_files
                           example_globals (Some 2))) 2)) =
     [PbRemoveEntry 12288, PbRemoveEntry 20480, CacheEvictOrRefresh 3 4,
      CacheEvictOrRefresh 5 4] \<and>
   changed_pages (used_entries example_reader)
     (used_entries
        (the (fst (snd (H5F_vfd_swmr_reader_end_of_tick example_new_tick_env example_files
                          example_globals (Some 2))) 2))) \<union>
   removed_pages (used_entries example_reader)
     (used_entries
        (the (fst (snd (H5F_vfd_swmr_reader_end_of_tick example_new_tick_env example_files
                          example_globals (Some 2))) 2))) = {3, 5}"
proof -
  obtain r files' g' where
    run: "H5F_vfd_swmr_reader_end_of_tick example_new_tick_env example_files example_globals
            (Some 2) = (r, files', g')"
    by (cases "H5F_vfd_swmr_reader_end_of_tick example_new_tick_env example_files
                 example_globals (Some 2)")
  define sh' where "sh' = the (files' 2)"
  have vals: "r = None" "files' 2 = Some sh'"
    "trace sh' = [PbRemoveEntry 12288, PbRemoveEntry 20480, CacheEvictOrRefresh 3 4,
                  CacheEvictOrRefresh 5 4]"
    "used_entries sh' = [example_entry 3 9 0, example_entry 8 7 0, example_entry 9 4 0]"
    unfolding sh'_def using run [symmetric]
    by (simp_all add: reader_defs used_entries_def entries_of_def example_new_tick_env_def
          example_env_def example_files_def example_reader_def example_entry_def)
  have old: "used_entries example_reader =
               [example_entry 3 2 0, example_entry 5 6 0, example_entry 8 7 0]"
    "trace example_reader = []" "pb_page_size example_reader = 4096"
    by (simp_all add: used_entries_def entries_of_def example_reader_def)
  have h: "Some (2 :: nat) = Some 2 \<or>
            (Some (2 :: nat) = None \<and> eot_queue_g example_globals \<noteq> [] \<and>
             vfd_swmr_file (hd (eot_queue_g example_globals)) = 2)"
    "example_files 2 = Some example_reader"
    "H5FD_vfd_swmr_get_tick example_new_tick_env (trace example_reader) = Some 4"
    "(4 :: u64) \<noteq> tick_num example_reader"
    "sorted_wrt (<) (map hdf5_page_offset (used_entries example_reader))"
    "sorted_wrt (<) (map hdf5_page_offset (used_entries sh'))"
    unfolding old vals(4)
    by (simp_all add: example_files_def example_new_tick_env_def example_reader_def
          example_entry_def)
  from reader_evicts_changed_and_removed
         [where f = 2, OF run [unfolded vals(1)] h(1,2) vals(2) h(3,4,5,6)]
  obtain pages where
    p: "trace sh' = trace example_reader @
             map (\<lambda>p. PbRemoveEntry (p * pb_page_size example_reader)) pages @
             map (\<lambda>p. CacheEvictOrRefresh p 4) pages"
       "set pages = changed_pages (used_entries example_reader) (used_entries sh') \<union>
                    removed_pages (used_entries example_reader) (used_entries sh')"
    by blast
  from p(1) have eq: "[PbRemoveEntry 12288, PbRemoveEntry 20480, CacheEvictOrRefresh 3 4,
                  CacheEvictOrRefresh 5 4] =
       map (\<lambda>p. PbRemoveEntry (p * 4096)) pages @ map (\<lambda>p. CacheEvictOrRefresh p 4) pages"
    unfolding vals(3) old by simp
  then have "length [PbRemoveEntry 12288, PbRemoveEntry 20480, CacheEvictOrRefresh 3 4,
                  CacheEvictOrRefresh 5 4] =
       length (map (\<lambda>p. PbRemoveEntry (p * 4096)) pages @
               map (\<lambda>p. CacheEvictOrRefresh p 4) pages)"
    by (rule arg_cong)
  then have "length pages = 2" by simp
  then obtain a b where ab: "pages = [a, b]"
    by (auto simp: numeral_2_eq_2 length_Suc_conv)
  with eq have "pages = [3, 5]" by simp
  with p(2) have "changed_pages (used_entries example_reader) (used_entries sh') \<union>
                  removed_pages (used_entries example_reader) (used_entries sh') = {3, 5}"
    by auto
  then show ?thesis
    unfolding run using vals(1,2,3) old(1) by (simp add: vals(4) example_entry_def)
qed


end
